theory Spec2Isabelle
  imports Main "HOL-Library.Word" "HOL-Library.Sublist"
begin

unbundle bit_operations_syntax

section \<open>The synchronous buffer (doc.go)\<close>

text \<open>
  A byte is an 8-bit word. The buffer of the source is a mutex-protected byte slice
  together with a channel that \<open>Append\<close> replaces on every non-empty append (the wake
  token). The sequential content of the struct is the slice and the identity of the
  current channel, kept here as a generation number.
\<close>

type_synonym byte = "8 word"

record synchronousMediaBase =
  buf :: "byte list"
  wait :: nat

definition newGXSynchronousMediaBase :: synchronousMediaBase where
  "newGXSynchronousMediaBase = \<lparr>buf = [], wait = 0\<rparr>"

definition Append :: "byte list \<Rightarrow> synchronousMediaBase \<Rightarrow> synchronousMediaBase" where
  "Append p b =
     (if length p = 0 then b
      else b\<lparr>buf := buf b @ p, wait := Suc (wait b)\<rparr>)"

text \<open>
  \<open>Get\<close> slices the buffer. A count other than \<open>-1\<close> that is negative or larger than
  the length makes one of the two slice expressions of the else branch panic.
\<close>

datatype fault = SliceBoundsOutOfRange

definition Get :: "int \<Rightarrow> synchronousMediaBase \<Rightarrow> fault + (byte list \<times> synchronousMediaBase)" where
  "Get count b =
     (if count = -1 \<or> count = int (length (buf b)) then Inr (buf b, b\<lparr>buf := []\<rparr>)
      else if count < 0 \<or> int (length (buf b)) < count then Inl SliceBoundsOutOfRange
      else Inr (take (nat count) (buf b), b\<lparr>buf := drop (nat count) (buf b)\<rparr>))"

subsection \<open>bytes.Index\<close>

text \<open>
  The Go standard library function: the index of the first instance of \<open>sep\<close> in \<open>s\<close>,
  or \<open>-1\<close> when \<open>sep\<close> is not present in \<open>s\<close>.
\<close>

fun bytes_Index :: "byte list \<Rightarrow> byte list \<Rightarrow> int" where
  "bytes_Index [] sep = (if sep = [] then 0 else -1)"
| "bytes_Index (x # s) sep =
     (if prefix sep (x # s) then 0
      else (let i = bytes_Index s sep in if i < 0 then -1 else i + 1))"

subsection \<open>What happens while Search waits\<close>

text \<open>
  Between two passes \<open>Search\<close> releases the lock and, when \<open>maxWait\<close> is positive,
  computes the time left and selects on the wake token and a timer. What the
  searcher meets there is decided by the reader and the clock, and is given to the
  model as a list, one entry for each time the wait section is entered:
  \<^item> \<open>Woken c\<close>: the select takes \<open>case <-ch\<close>; the reader has appended the bytes \<open>c\<close>
    by the time the searcher holds the lock again;
  \<^item> \<open>DeadlinePassed\<close>: \<open>time.Until(deadline)\<close> is not positive, no select is entered;
  \<^item> \<open>TimerFired\<close>: the select takes \<open>case <-timer.C\<close>.
  A timer always fires in the end, so the exhausted list counts as \<open>TimerFired\<close>.
\<close>

datatype wakeup = Woken "byte list" | DeadlinePassed | TimerFired

text \<open>
  The result of a run of \<open>Search\<close>: the returned offset (\<open>-1\<close> for no match), the
  buffer as it was when the searcher last held the lock, and two ghost fields: the
  number of select statements entered, and for every call of \<open>bytes.Index\<close> the pair
  of the clamped start and the buffer length at that pass.
\<close>

record search_result =
  ret :: int
  mem :: synchronousMediaBase
  selects :: nat
  scans :: "(int \<times> int) list"

definition returned :: "int \<Rightarrow> synchronousMediaBase \<Rightarrow> search_result" where
  "returned i b = \<lparr>ret = i, mem = b, selects = 0, scans = []\<rparr>"

definition selected :: "search_result \<Rightarrow> search_result" where
  "selected r = r\<lparr>selects := Suc (selects r)\<rparr>"

definition scanned :: "int \<times> int \<Rightarrow> search_result \<Rightarrow> search_result" where
  "scanned p r = r\<lparr>scans := p # scans r\<rparr>"

text \<open>The loop of the empty pattern (doc.go, lines 151 to 181).\<close>

fun search_len :: "int \<Rightarrow> int \<Rightarrow> synchronousMediaBase \<Rightarrow> wakeup list \<Rightarrow> search_result" where
  "search_len minLen maxWait b evs =
     (if minLen \<le> int (length (buf b)) then returned 0 b
      else if maxWait \<le> 0 then returned (-1) b
      else (case evs of
              Woken c # rest \<Rightarrow> selected (search_len minLen maxWait (Append c b) rest)
            | DeadlinePassed # rest \<Rightarrow> returned (-1) b
            | _ \<Rightarrow> selected (returned (-1) b)))"

text \<open>
  The loop of a non-empty pattern (doc.go, lines 183 to 261). The wait section is
  written twice in the source, after a buffer shorter than \<open>minLen\<close> and after a
  pass without a match; \<open>deadline\<close> is non-zero exactly when \<open>maxWait\<close> is positive,
  so past the test \<open>maxWait <= 0\<close> the timed branch is always taken.
\<close>

fun search_pat ::
  "byte list \<Rightarrow> int \<Rightarrow> int \<Rightarrow> int \<Rightarrow> synchronousMediaBase \<Rightarrow> wakeup list \<Rightarrow> search_result"
where
  "search_pat pattern minLen maxWait lastStart b evs =
     (let overlap = (if int (length pattern) - 1 < 0 then 0 else int (length pattern) - 1);
          n = int (length (buf b));
          start0 = (if lastStart < 0 then 0 else lastStart);
          start = (if start0 > n then n else start0)
      in
      if n < minLen then
        (if maxWait \<le> 0 then returned (-1) b
         else (case evs of
                 Woken c # rest \<Rightarrow>
                   selected (search_pat pattern minLen maxWait lastStart (Append c b) rest)
               | DeadlinePassed # rest \<Rightarrow> returned (-1) b
               | _ \<Rightarrow> selected (returned (-1) b)))
      else
        (let i = bytes_Index (drop (nat start) (buf b)) pattern in
         if i \<ge> 0 then scanned (start, n) (returned (start + i + int (length pattern)) b)
         else
           (let nextStart0 = n - overlap;
                nextStart = (if nextStart0 < 0 then 0 else nextStart0)
            in scanned (start, n)
              (if maxWait \<le> 0 then returned (-1) b
               else (case evs of
                       Woken c # rest \<Rightarrow>
                         selected (search_pat pattern minLen maxWait nextStart (Append c b) rest)
                     | DeadlinePassed # rest \<Rightarrow> returned (-1) b
                     | _ \<Rightarrow> selected (returned (-1) b))))))"

definition Search ::
  "byte list \<Rightarrow> int \<Rightarrow> int \<Rightarrow> synchronousMediaBase \<Rightarrow> wakeup list \<Rightarrow> search_result"
where
  "Search pattern minLen maxWait b evs =
     (let minLen' = (if minLen < 0 then 0 else minLen) in
      if length pattern = 0 then search_len minLen' maxWait b evs
      else search_pat pattern minLen' maxWait 0 b evs)"

section \<open>The transport (GXSerial) and the Linux port\<close>

subsection \<open>Errors, messages and callback events\<close>

text \<open>
  An error value is kept by the text the source builds it from: \<open>errors.New\<close>,
  \<open>fmt.Errorf\<close> with an integer argument, \<open>fmt.Errorf\<close> wrapping another error with
  \<open>%w\<close>, or an error handed over by the operating system or by package gxcommon
  (\<open>Foreign\<close>, identified by a number).
\<close>

datatype error =
    New string
  | Errorf string int
  | Wrap string error
  | Foreign nat

datatype arg = Str string | Err error

datatype message = Sprintf string "arg list"

datatype MediaState = MediaStateClosed | MediaStateOpen | MediaStateOpening | MediaStateClosing

text \<open>
  A registered handler is identified by a number; \<open>None\<close> is the nil handler. The
  invocations of the handlers are collected, in order, in the field \<open>emitted\<close> of the
  transport.
\<close>

type_synonym handler = nat

datatype event =
    StateEvent handler MediaState
  | TraceEvent handler int message
  | ErrorEvent handler error
  | ReceivedEvent handler "byte list"

subsection \<open>Declarations of other packages\<close>

text \<open>
  The enumeration constants of package gxcommon and the flag constants of package
  \<open>golang.org/x/sys/unix\<close> are declared outside the repository; the model takes them
  as parameters. \<open>TraceTypes\<close>, \<open>TraceLevel\<close>, \<open>StopBits\<close> and \<open>BaudRate\<close> are integer
  types and are compared as integers by the source.
\<close>

record gxcommon =
  TraceTypesSent :: int
  TraceTypesReceived :: int
  TraceTypesError :: int
  TraceTypesInfo :: int
  StopBitsOne :: int

datatype Parity =
  ParityNone | ParityOdd | ParityEven | ParityMark | ParitySpace | ParityOther int

record unix =
  CSIZE :: "32 word"
  CS5 :: "32 word"
  CS6 :: "32 word"
  CS7 :: "32 word"
  CS8 :: "32 word"
  CSTOPB :: "32 word"
  PARENB :: "32 word"
  PARODD :: "32 word"
  CMSPAR :: "32 word"
  CLOCAL :: "32 word"
  CREAD :: "32 word"
  CRTSCTS :: "32 word"
  unix_B :: "int \<Rightarrow> 32 word"

text \<open>
  The table \<open>toUnitBaudrate\<close> (linuxHandler.go, lines 24 to 43); \<open>unix_B U n\<close> stands for the
  constant \<open>unix.Bn\<close>. A key that is not in a Go map reads as the zero value.
\<close>

definition toUnitBaudrate :: "unix \<Rightarrow> int \<Rightarrow> 32 word" where
  "toUnitBaudrate U baud =
     (if baud \<in> {0, 50, 75, 110, 134, 150, 200, 300, 600, 1200, 1800, 2400, 4800, 9600,
                  19200, 38400, 57600, 115200}
      then unix_B U baud else 0)"

subsection \<open>The port (linuxHandler.go)\<close>

text \<open>
  Of the termios structure the control flags and the two speeds are kept. The field
  \<open>tio\<close> of the port stands for the attributes the kernel holds for the descriptor.
  The fields \<open>f\<close>, \<open>r\<close> and \<open>w\<close> of the source say whether the file and the two ends
  of the pipe are non-nil; they are named \<open>f_file\<close>, \<open>r_pipe\<close> and \<open>w_pipe\<close> here.
\<close>

record termios =
  Cflag :: "32 word"
  Ispeed :: "32 word"
  Ospeed :: "32 word"

record port =
  f_file :: bool
  r_pipe :: bool
  w_pipe :: bool
  tio :: termios

text \<open>
  What the system calls answer: an error, or none; \<open>dev\<close> is the attributes the
  device has when it is opened.
\<close>

record os =
  dev :: termios
  Open_err :: "error option"
  IoctlGetTermios_err :: "error option"
  IoctlSetTermios_err :: "error option"
  IoctlSetInt_err :: "error option"
  Pipe_err :: "error option"
  Close_err :: "error option"
  Write_res :: "byte list \<Rightarrow> int \<times> error option"

definition isOpen :: "port \<Rightarrow> bool" where
  "isOpen p = f_file p"

definition close :: "os \<Rightarrow> port \<Rightarrow> error option \<times> port" where
  "close sys p =
     (if f_file p then (Close_err sys, p\<lparr>f_file := False\<rparr>)
      else (None, p))"

definition ensureOpen :: "port \<Rightarrow> error option" where
  "ensureOpen p = (if \<not> f_file p then Some (New ''serial port not open'') else None)"

definition getTermios :: "os \<Rightarrow> port \<Rightarrow> error + termios" where
  "getTermios sys p =
     (case ensureOpen p of
        Some err \<Rightarrow> Inl err
      | None \<Rightarrow>
          (case IoctlGetTermios_err sys of
             Some err \<Rightarrow> Inl (Wrap ''tcgetattr failed: %w'' err)
           | None \<Rightarrow> Inr (tio p)))"

definition setTermios :: "os \<Rightarrow> termios \<Rightarrow> port \<Rightarrow> error option \<times> port" where
  "setTermios sys val p =
     (case ensureOpen p of
        Some err \<Rightarrow> (Some err, p)
      | None \<Rightarrow>
          (case IoctlSetTermios_err sys of
             Some err \<Rightarrow> (Some (Wrap ''tcsetattr failed: %w'' err), p)
           | None \<Rightarrow> (None, p\<lparr>tio := val\<rparr>)))"

definition setBaudRate :: "unix \<Rightarrow> os \<Rightarrow> int \<Rightarrow> port \<Rightarrow> error option \<times> port" where
  "setBaudRate U sys val p =
     (case getTermios sys p of
        Inl err \<Rightarrow> (Some (Wrap ''setBaudRate failed. %w'' err), p)
      | Inr t \<Rightarrow>
          (let u = toUnitBaudrate U val in
           if u = 0 then (Some (Errorf ''setBaudRate failed. unsupported baud: %d'' val), p)
           else setTermios sys (t\<lparr>Ispeed := u, Ospeed := u\<rparr>) p))"

definition setDataBits :: "unix \<Rightarrow> os \<Rightarrow> int \<Rightarrow> port \<Rightarrow> error option \<times> port" where
  "setDataBits U sys val p =
     (case getTermios sys p of
        Inl err \<Rightarrow> (Some (Wrap ''setDataBits failed. %w'' err), p)
      | Inr t0 \<Rightarrow>
          (let t = t0\<lparr>Cflag := Cflag t0 AND NOT (CSIZE U)\<rparr> in
           if val = 5 then setTermios sys (t\<lparr>Cflag := Cflag t OR CS5 U\<rparr>) p
           else if val = 6 then setTermios sys (t\<lparr>Cflag := Cflag t OR CS6 U\<rparr>) p
           else if val = 7 then setTermios sys (t\<lparr>Cflag := Cflag t OR CS7 U\<rparr>) p
           else if val = 8 then setTermios sys (t\<lparr>Cflag := Cflag t OR CS8 U\<rparr>) p
           else (Some (Errorf ''setDataBits failed. invalid databits: %d'' val), p)))"

definition setParity :: "unix \<Rightarrow> os \<Rightarrow> Parity \<Rightarrow> port \<Rightarrow> error option \<times> port" where
  "setParity U sys val p =
     (case getTermios sys p of
        Inl err \<Rightarrow> (Some (Wrap ''setParity failed. %w'' err), p)
      | Inr t0 \<Rightarrow>
          (let t = t0\<lparr>Cflag := Cflag t0 AND NOT (PARENB U OR PARODD U)\<rparr> in
           case val of
             ParityNone \<Rightarrow> setTermios sys t p
           | ParityEven \<Rightarrow> setTermios sys (t\<lparr>Cflag := Cflag t OR PARENB U\<rparr>) p
           | ParityOdd \<Rightarrow> setTermios sys (t\<lparr>Cflag := Cflag t OR (PARENB U OR PARODD U)\<rparr>) p
           | ParityMark \<Rightarrow> (Some (New ''mark/space parity not supported on this system''), p)
           | ParitySpace \<Rightarrow> (Some (New ''mark/space parity not supported on this system''), p)
           | ParityOther v \<Rightarrow> setTermios sys t p))"

definition setStopBits :: "gxcommon \<Rightarrow> unix \<Rightarrow> os \<Rightarrow> int \<Rightarrow> port \<Rightarrow> error option \<times> port" where
  "setStopBits K U sys val p =
     (case getTermios sys p of
        Inl err \<Rightarrow> (Some (Wrap ''setStopBits failed. %w'' err), p)
      | Inr t0 \<Rightarrow>
          (let t = t0\<lparr>Cflag := Cflag t0 AND NOT (CSTOPB U)\<rparr> in
           if val = StopBitsOne K then setTermios sys (t\<lparr>Cflag := Cflag t OR CSTOPB U\<rparr>) p
           else if val \<noteq> 0 then
             (Some (Errorf ''setStopBits failed. invalid value: %d (use 0 or 1)'' val), p)
           else setTermios sys t p))"

definition port_write :: "os \<Rightarrow> byte list \<Rightarrow> port \<Rightarrow> int \<times> error option" where
  "port_write sys data p =
     (case ensureOpen p of
        Some err \<Rightarrow> (0, Some err)
      | None \<Rightarrow> Write_res sys data)"


subsection \<open>The transport\<close>

text \<open>
  The fields of the struct that the modelled operations read or write. The field \<open>s\<close>
  is named \<open>s_port\<close>. The channel \<open>stop\<close> is kept by whether it has been closed, the
  wait group by its counter. \<open>emitted\<close> is a ghost field: the handler invocations so far.
\<close>

record GXSerial =
  Port :: string
  baudRate :: int
  dataBits :: int
  stopBits :: int
  parity :: Parity
  traceLevel :: int
  stop_closed :: bool
  wg :: nat
  synchronous :: bool
  bytesSent :: "64 word"
  bytesReceived :: "64 word"
  onState :: "handler option"
  onReceive :: "handler option"
  onTrace :: "handler option"
  onErr :: "handler option"
  received :: synchronousMediaBase
  s_port :: port
  emitted :: "event list"

definition NewGXSerial :: "string \<Rightarrow> int \<Rightarrow> int \<Rightarrow> Parity \<Rightarrow> int \<Rightarrow> GXSerial" where
  "NewGXSerial port baud bits par stop =
     \<lparr>Port = port, baudRate = baud, dataBits = bits, stopBits = stop, parity = par,
      traceLevel = 0, stop_closed = False, wg = 0, synchronous = False,
      bytesSent = 0, bytesReceived = 0,
      onState = None, onReceive = None, onTrace = None, onErr = None,
      received = newGXSynchronousMediaBase,
      s_port = \<lparr>f_file = False, r_pipe = False, w_pipe = False,
                 tio = \<lparr>Cflag = 0, Ispeed = 0, Ospeed = 0\<rparr>\<rparr>,
      emitted = []\<rparr>"

definition SetBaudRate :: "unix \<Rightarrow> os \<Rightarrow> int \<Rightarrow> GXSerial \<Rightarrow> error option \<times> GXSerial" where
  "SetBaudRate U sys val g =
     (let g1 = g\<lparr>baudRate := val\<rparr> in
      if isOpen (s_port g1) then
        (case setBaudRate U sys val (s_port g1) of (err, p) \<Rightarrow> (err, g1\<lparr>s_port := p\<rparr>))
      else (None, g1))"

definition SetDataBits :: "unix \<Rightarrow> os \<Rightarrow> int \<Rightarrow> GXSerial \<Rightarrow> error option \<times> GXSerial" where
  "SetDataBits U sys val g =
     (let g1 = g\<lparr>dataBits := val\<rparr> in
      if isOpen (s_port g1) then
        (case setDataBits U sys val (s_port g1) of (err, p) \<Rightarrow> (err, g1\<lparr>s_port := p\<rparr>))
      else (None, g1))"

definition SetStopBits ::
  "gxcommon \<Rightarrow> unix \<Rightarrow> os \<Rightarrow> int \<Rightarrow> GXSerial \<Rightarrow> error option \<times> GXSerial"
where
  "SetStopBits K U sys val g =
     (let g1 = g\<lparr>stopBits := val\<rparr> in
      if isOpen (s_port g1) then
        (case setStopBits K U sys val (s_port g1) of (err, p) \<Rightarrow> (err, g1\<lparr>s_port := p\<rparr>))
      else (None, g1))"

definition SetParity :: "unix \<Rightarrow> os \<Rightarrow> Parity \<Rightarrow> GXSerial \<Rightarrow> error option \<times> GXSerial" where
  "SetParity U sys val g =
     (let g1 = g\<lparr>parity := val\<rparr> in
      if isOpen (s_port g1) then
        (case setParity U sys val (s_port g1) of (err, p) \<Rightarrow> (err, g1\<lparr>s_port := p\<rparr>))
      else (None, g1))"

definition IsOpen :: "GXSerial \<Rightarrow> bool" where
  "IsOpen g = isOpen (s_port g)"

definition GetBytesSent :: "GXSerial \<Rightarrow> 64 word" where
  "GetBytesSent g = bytesSent g"

definition ResetByteCounters :: "GXSerial \<Rightarrow> GXSerial" where
  "ResetByteCounters g = g\<lparr>bytesSent := 0, bytesReceived := 0\<rparr>"

definition SetTrace :: "int \<Rightarrow> GXSerial \<Rightarrow> error option \<times> GXSerial" where
  "SetTrace level g = (None, g\<lparr>traceLevel := level\<rparr>)"

definition SetOnReceived :: "handler option \<Rightarrow> GXSerial \<Rightarrow> GXSerial" where
  "SetOnReceived val g = g\<lparr>onReceive := val\<rparr>"

definition SetOnError :: "handler option \<Rightarrow> GXSerial \<Rightarrow> GXSerial" where
  "SetOnError val g = g\<lparr>onErr := val\<rparr>"

definition SetOnMediaStateChange :: "handler option \<Rightarrow> GXSerial \<Rightarrow> GXSerial" where
  "SetOnMediaStateChange val g = g\<lparr>onState := val\<rparr>"

definition SetOnTrace :: "handler option \<Rightarrow> GXSerial \<Rightarrow> GXSerial" where
  "SetOnTrace val g = g\<lparr>onTrace := val\<rparr>"

text \<open>
  The dispatch functions. The parameter \<open>lock\<close> chooses whether the read lock is
  taken around the reads of the level and the handler; the values read are the same.
\<close>

definition emit :: "event \<Rightarrow> GXSerial \<Rightarrow> GXSerial" where
  "emit e g = g\<lparr>emitted := emitted g @ [e]\<rparr>"

definition errorf :: "bool \<Rightarrow> error \<Rightarrow> GXSerial \<Rightarrow> GXSerial" where
  "errorf lock err g =
     (case onErr g of Some cb \<Rightarrow> emit (ErrorEvent cb err) g | None \<Rightarrow> g)"

definition tracef :: "bool \<Rightarrow> int \<Rightarrow> string \<Rightarrow> arg list \<Rightarrow> GXSerial \<Rightarrow> GXSerial" where
  "tracef lock traceType fmtStr a g =
     (let trace = \<not> (traceLevel g < traceType) in
      case onTrace g of
        Some cb \<Rightarrow> if trace then emit (TraceEvent cb traceType (Sprintf fmtStr a)) g else g
      | None \<Rightarrow> g)"

definition trace :: "bool \<Rightarrow> int \<Rightarrow> message \<Rightarrow> GXSerial \<Rightarrow> GXSerial" where
  "trace lock traceType msg g =
     (let trace = \<not> (traceLevel g < traceType) in
      case onTrace g of
        Some cb \<Rightarrow> if trace then emit (TraceEvent cb traceType msg) g else g
      | None \<Rightarrow> g)"

definition statef :: "bool \<Rightarrow> MediaState \<Rightarrow> GXSerial \<Rightarrow> GXSerial" where
  "statef lock state g =
     (case onState g of Some cb \<Rightarrow> emit (StateEvent cb state) g | None \<Rightarrow> g)"

text \<open>
  \<open>openPort\<close> (linuxHandler.go, lines 79 to 187). \<open>configure\<close> is the part between
  the two ioctl calls: it computes the attributes from the configuration and fails
  on data bits, stop bits or a parity outside the cases of the switches. The
  constant \<open>hasCMSPAR\<close> of the source is true.
\<close>

definition configure :: "unix \<Rightarrow> GXSerial \<Rightarrow> termios \<Rightarrow> error + termios" where
  "configure U cfg t0 =
     (let t1 = t0\<lparr>Cflag := Cflag t0 OR (CLOCAL U OR CREAD U)\<rparr>;
          speed = toUnitBaudrate U (baudRate cfg);
          t2 = t1\<lparr>Ispeed := speed, Ospeed := speed\<rparr>;
          t3 = t2\<lparr>Cflag := Cflag t2 AND NOT (CSIZE U)\<rparr>
      in
      if dataBits cfg \<noteq> 5 \<and> dataBits cfg \<noteq> 6 \<and> dataBits cfg \<noteq> 7 \<and> dataBits cfg \<noteq> 8
      then Inl (New ''invalid databits (must be 5..8)'')
      else
        (let t4 = t3\<lparr>Cflag := Cflag t3 OR
                      (if dataBits cfg = 5 then CS5 U else if dataBits cfg = 6 then CS6 U
                       else if dataBits cfg = 7 then CS7 U else CS8 U)\<rparr>
         in
         if stopBits cfg \<noteq> 1 \<and> stopBits cfg \<noteq> 2
         then Inl (New ''invalid stopbits (must be 1 or 2)'')
         else
           (let t5 = (if stopBits cfg = 1 then t4\<lparr>Cflag := Cflag t4 AND NOT (CSTOPB U)\<rparr>
                      else t4\<lparr>Cflag := Cflag t4 OR CSTOPB U\<rparr>);
                t6 = t5\<lparr>Cflag := Cflag t5 AND NOT (PARENB U OR PARODD U) AND NOT (CMSPAR U)\<rparr>;
                crtscts = (\<lambda>t. t\<lparr>Cflag := Cflag t AND NOT (CRTSCTS U)\<rparr>)
            in
            case parity cfg of
              ParityNone \<Rightarrow> Inr (crtscts t6)
            | ParityEven \<Rightarrow>
                Inr (crtscts (t6\<lparr>Cflag := (Cflag t6 OR PARENB U) AND NOT (PARODD U)
                                          AND NOT (CMSPAR U)\<rparr>))
            | ParityOdd \<Rightarrow>
                Inr (crtscts (t6\<lparr>Cflag := (Cflag t6 OR (PARENB U OR PARODD U))
                                          AND NOT (CMSPAR U)\<rparr>))
            | ParityMark \<Rightarrow>
                Inr (crtscts (t6\<lparr>Cflag := Cflag t6 OR (PARENB U OR CMSPAR U OR PARODD U)\<rparr>))
            | ParitySpace \<Rightarrow>
                Inr (crtscts (t6\<lparr>Cflag := (Cflag t6 OR (PARENB U OR CMSPAR U))
                                          AND NOT (PARODD U)\<rparr>))
            | ParityOther v \<Rightarrow> Inl (New ''invalid parity''))))"

definition closed :: "os \<Rightarrow> GXSerial \<Rightarrow> GXSerial" where
  "closed sys cfg = cfg\<lparr>s_port := snd (close sys (s_port cfg))\<rparr>"

definition openPort :: "unix \<Rightarrow> os \<Rightarrow> GXSerial \<Rightarrow> error option \<times> GXSerial" where
  "openPort U sys cfg =
     (case Open_err sys of
        Some err \<Rightarrow> (Some err, cfg)
      | None \<Rightarrow>
          (let cfg1 = cfg\<lparr>s_port := \<lparr>f_file = True, r_pipe = False, w_pipe = False,
                                     tio = dev sys\<rparr>\<rparr>
           in
           case IoctlGetTermios_err sys of
             Some err \<Rightarrow> (Some err, closed sys cfg1)
           | None \<Rightarrow>
               (case configure U cfg1 (tio (s_port cfg1)) of
                  Inl err \<Rightarrow> (Some err, closed sys cfg1)
                | Inr t \<Rightarrow>
                    (case IoctlSetTermios_err sys of
                       Some err \<Rightarrow> (Some err, closed sys cfg1)
                     | None \<Rightarrow>
                         (let cfg2 = cfg1\<lparr>s_port := (s_port cfg1)\<lparr>tio := t\<rparr>\<rparr> in
                          case IoctlSetInt_err sys of
                            Some err \<Rightarrow> (Some err, cfg2)
                          | None \<Rightarrow>
                              (case Pipe_err sys of
                                 Some err \<Rightarrow> (Some err, closed sys cfg2)
                               | None \<Rightarrow>
                                   (None, cfg2\<lparr>s_port := (s_port cfg2)
                                            \<lparr>r_pipe := True, w_pipe := True\<rparr>\<rparr>)))))))"

text \<open>
  \<open>Open\<close> and \<open>Close\<close>. The reader goroutine that \<open>Open\<close> starts is not part of the
  sequential model: \<open>Open\<close> adds one to the wait group, and \<open>wg.Wait()\<close> in \<open>Close\<close>
  returns with the counter at zero. No statement of the source closes the channel
  \<open>stop\<close>, so no operation of the model sets \<open>stop_closed\<close>.
\<close>

definition Open :: "gxcommon \<Rightarrow> unix \<Rightarrow> os \<Rightarrow> GXSerial \<Rightarrow> error option \<times> GXSerial" where
  "Open K U sys g =
     (if isOpen (s_port g) then (None, g)
      else
        (let g1 = statef False MediaStateOpening g;
             g2 = trace False (TraceTypesInfo K) (Sprintf ''msg.connecting_to'' [Str (Port g1)]) g1
         in
         case openPort U sys g2 of
           (Some err, g3) \<Rightarrow>
             (Some err,
              errorf False err
                (trace False (TraceTypesError K)
                   (Sprintf ''msg.connect_failed'' [Str (Port g3), Err err]) g3))
         | (None, g3) \<Rightarrow>
             (None,
              statef False MediaStateOpen
                (trace False (TraceTypesInfo K) (Sprintf ''msg.connected_to'' [Str (Port g3)])
                   (g3\<lparr>wg := wg g3 + 1\<rparr>)))))"

definition Close :: "gxcommon \<Rightarrow> os \<Rightarrow> GXSerial \<Rightarrow> error option \<times> GXSerial" where
  "Close K sys g =
     (let g' =
        (if stop_closed g then g
         else
           (let g1 = (if isOpen (s_port g)
                      then statef False MediaStateClosing
                             (trace False (TraceTypesInfo K)
                                (Sprintf ''msg.closing_connection'' [Str (Port g)]) g)
                      else g);
                g2 = closed sys g1;
                g3 = trace False (TraceTypesInfo K)
                       (Sprintf ''msg.connection_closed'' [Str (Port g2)]) g2
            in statef False MediaStateClosed g3))
      in (None, g'\<lparr>wg := 0\<rparr>))"

text \<open>
  \<open>Send\<close>. \<open>ToBytes\<close> and \<open>ToString\<close> are functions of package gxcommon, parameters here.
\<close>

definition Send ::
  "gxcommon \<Rightarrow> os \<Rightarrow> ('d \<Rightarrow> error + byte list) \<Rightarrow> ('d \<Rightarrow> error + string) \<Rightarrow>
   'd \<Rightarrow> string \<Rightarrow> GXSerial \<Rightarrow> error option \<times> GXSerial"
where
  "Send K sys ToBytes ToString data receiver g =
     (case ToBytes data of
        Inl err \<Rightarrow> (Some err, g)
      | Inr tmp \<Rightarrow>
          (let g1 = g\<lparr>bytesSent := bytesSent g + of_nat (length tmp)\<rparr> in
           case ToString data of
             Inl err \<Rightarrow> (Some err, g1)
           | Inr str \<Rightarrow>
               (let g2 = tracef True (TraceTypesSent K) ''TX: %s'' [Str str] g1 in
                (snd (port_write sys tmp (s_port g2)), g2))))"

text \<open>
  \<open>Receive\<close>. The request carries the terminator (\<open>None\<close> for nil), the count, the
  all-data flag, the wait in milliseconds and the reply. \<open>ToBytes\<close> and \<open>BytesToAny2\<close>
  (at the reply type of the request) are functions of package gxcommon, parameters
  here; \<open>BytesToAny2\<close> returns a value and an error, and the value is stored in the
  reply in either case. The product of the wait and \<open>time.Millisecond\<close> is a 64-bit
  signed multiplication. The wake-ups are those of the run of \<open>Search\<close>.
\<close>

record ('e, 'r) ReceiveParameters =
  EOP :: "'e option"
  Count :: int
  AllData :: bool
  WaitTime :: int
  Reply :: "'r option"

definition Millisecond :: "int \<Rightarrow> int" where
  "Millisecond n = sint (word_of_int (n * 1000000) :: 64 word)"

definition waitTime :: "int \<Rightarrow> int" where
  "waitTime ms = (if ms \<le> 0 then 0 else Millisecond ms)"

definition Receive ::
  "('e option \<Rightarrow> error + byte list) \<Rightarrow> (byte list \<Rightarrow> 'r option \<times> error option) \<Rightarrow>
   wakeup list \<Rightarrow> ('e, 'r) ReceiveParameters \<Rightarrow> GXSerial \<Rightarrow>
   fault + ((bool \<times> error option) \<times> ('e, 'r) ReceiveParameters \<times> GXSerial)"
where
  "Receive ToBytes BytesToAny2 evs args g =
     (if EOP args = None \<and> Count args = 0 \<and> \<not> AllData args
      then Inr ((False, Some (New ''msg.count_or_eop'')), args, g)
      else
        (case ToBytes (EOP args) of
           Inl err \<Rightarrow> Inr ((False, Some err), args, g)
         | Inr terminator \<Rightarrow>
             (let found = Search terminator (Count args) (waitTime (WaitTime args))
                            (received g) evs;
                  g1 = g\<lparr>received := mem found\<rparr>
              in
              if ret found = -1 then Inr ((False, None), args, g1)
              else
                (let index = (if AllData args then -1 else ret found) in
                 case Get index (received g1) of
                   Inl panic \<Rightarrow> Inl panic
                 | Inr (data, b) \<Rightarrow>
                     (let g2 = g1\<lparr>received := b\<rparr> in
                      case BytesToAny2 data of
                        (reply, Some err) \<Rightarrow> Inr ((False, Some err), args\<lparr>Reply := reply\<rparr>, g2)
                      | (reply, None) \<Rightarrow> Inr ((True, None), args\<lparr>Reply := reply\<rparr>, g2))))))"


subsection \<open>Notions used in the statements about Search\<close>

text \<open>
  The chunks of the wake-ups that a run can consume: the leading \<open>Woken\<close> entries of
  the list. \<open>grown b evs k\<close> is the content of the buffer after \<open>k\<close> of them.
\<close>

fun woken :: "wakeup list \<Rightarrow> byte list list" where
  "woken (Woken c # rest) = c # woken rest"
| "woken _ = []"

definition grown :: "synchronousMediaBase \<Rightarrow> wakeup list \<Rightarrow> nat \<Rightarrow> byte list" where
  "grown b evs k = buf b @ concat (take k (woken evs))"

text \<open>
  The invariant of the cursor: it lies between \<open>0\<close> and the carry-over position of
  the current buffer, and no occurrence of the pattern starts before it.
\<close>

definition cursor_ok :: "byte list \<Rightarrow> int \<Rightarrow> byte list \<Rightarrow> bool" where
  "cursor_ok P ls s \<longleftrightarrow>
     0 \<le> ls \<and> ls \<le> max 0 (int (length s) - (int (length P) - 1)) \<and>
     (\<forall>j<nat ls. \<not> prefix P (drop j s))"

text \<open>
  Two consecutive calls of \<open>bytes.Index\<close>, each given as the pair of its start and
  the buffer length: \<open>carry\<close> is the relation the code establishes between them,
  \<open>carry_exact\<close> says that the bytes of the earlier buffer that lie in the later
  scanned region number exactly \<open>len(pattern) - 1\<close>.
\<close>

definition carry :: "byte list \<Rightarrow> int \<times> int \<Rightarrow> int \<times> int \<Rightarrow> bool" where
  "carry P p q \<longleftrightarrow>
     fst p \<le> fst q \<and> snd p \<le> snd q \<and>
     fst q = max 0 (snd p - (int (length P) - 1)) \<and>
     snd p - fst q = min (snd p) (int (length P) - 1)"

definition carry_exact :: "byte list \<Rightarrow> int \<times> int \<Rightarrow> int \<times> int \<Rightarrow> bool" where
  "carry_exact P p q \<longleftrightarrow> snd p - fst q = int (length P) - 1"

subsection \<open>Values used in the closed examples\<close>

text \<open>
  The conversions of package gxcommon at byte-slice values, as the examples take
  them: a nil terminator converts to no bytes, a byte slice converts to itself. A
  sample of the constants of gxcommon, the constants of package unix on Linux (of the
  speed constants the two the examples use), and an operating system whose calls
  all succeed.
\<close>

definition ToBytes_bytes :: "byte list option \<Rightarrow> error + byte list" where
  "ToBytes_bytes v = (case v of None \<Rightarrow> Inr [] | Some bs \<Rightarrow> Inr bs)"

definition BytesToAny2_bytes :: "byte list \<Rightarrow> byte list option \<times> error option" where
  "BytesToAny2_bytes data = (Some data, None)"

definition sample_gxcommon :: gxcommon where
  "sample_gxcommon =
     \<lparr>TraceTypesSent = 1, TraceTypesReceived = 2, TraceTypesError = 4, TraceTypesInfo = 16,
      StopBitsOne = 1\<rparr>"

text \<open>
  The two values of the enumeration \<open>TraceLevel\<close> of package gxcommon that the
  examples use; the enumeration runs Off, Error, Warning, Info, Verbose from 0 to 4.
  The categories of \<open>sample_gxcommon\<close> are the flags of its enumeration \<open>TraceTypes\<close>:
  Sent 1, Received 2, Error 4, Warning 8, Info 16.
\<close>

definition TraceLevelError :: int where
  "TraceLevelError = 1"

definition TraceLevelVerbose :: int where
  "TraceLevelVerbose = 4"

definition linux_unix :: unix where
  "linux_unix =
     \<lparr>CSIZE = 0x30, CS5 = 0x0, CS6 = 0x10, CS7 = 0x20, CS8 = 0x30, CSTOPB = 0x40,
      PARENB = 0x100, PARODD = 0x200, CMSPAR = 0x40000000, CLOCAL = 0x800, CREAD = 0x80,
      CRTSCTS = 0x80000000,
      unix_B = (\<lambda>n. if n = 9600 then 0xD else if n = 115200 then 0x1002 else 0)\<rparr>"

definition quiet_os :: os where
  "quiet_os =
     \<lparr>dev = \<lparr>Cflag = 0, Ispeed = 0, Ospeed = 0\<rparr>,
      Open_err = None, IoctlGetTermios_err = None, IoctlSetTermios_err = None,
      IoctlSetInt_err = None, Pipe_err = None, Close_err = None,
      Write_res = (\<lambda>data. (int (length data), None))\<rparr>"

section \<open>Proofs: the synchronous buffer\<close>

declare search_len.simps [simp del] search_pat.simps [simp del]

lemma bytes_Index_lower: "-1 \<le> bytes_Index s sep"
  by (induction s) (auto simp: Let_def)

lemma bytes_Index_occ:
  "0 \<le> bytes_Index s sep \<Longrightarrow> prefix sep (drop (nat (bytes_Index s sep)) s)"
proof (induction s)
  case Nil
  then show ?case by (auto split: if_splits)
next
  case (Cons x s)
  show ?case
  proof (cases "prefix sep (x # s)")
    case True
    then show ?thesis by simp
  next
    case False
    with Cons.prems have nn: "0 \<le> bytes_Index s sep"
      by (auto simp: Let_def split: if_splits)
    with False have "bytes_Index (x # s) sep = bytes_Index s sep + 1"
      by (simp add: Let_def)
    moreover have "nat (bytes_Index s sep + 1) = Suc (nat (bytes_Index s sep))"
      using nn by simp
    ultimately show ?thesis using Cons.IH [OF nn] by simp
  qed
qed

lemma bytes_Index_least:
  "prefix sep (drop j s) \<Longrightarrow> 0 \<le> bytes_Index s sep \<and> bytes_Index s sep \<le> int j"
proof (induction s arbitrary: j)
  case Nil
  then show ?case by auto
next
  case (Cons x s)
  show ?case
  proof (cases "prefix sep (x # s)")
    case True
    then show ?thesis by simp
  next
    case False
    with Cons.prems obtain j' where j: "j = Suc j'"
      by (cases j) auto
    with Cons.prems have "prefix sep (drop j' s)" by simp
    from Cons.IH [OF this] False j show ?thesis
      by (simp add: Let_def)
  qed
qed

lemma bytes_Index_none: "bytes_Index s sep < 0 \<Longrightarrow> \<not> prefix sep (drop j s)"
  using bytes_Index_least [of sep j s] by auto

lemma bytes_Index_upper:
  "0 \<le> bytes_Index s sep \<Longrightarrow> bytes_Index s sep + int (length sep) \<le> int (length s)"
proof (induction s)
  case Nil
  then show ?case by (auto split: if_splits)
next
  case (Cons x s)
  show ?case
  proof (cases "prefix sep (x # s)")
    case True
    then show ?thesis using prefix_length_le [OF True] by simp
  next
    case False
    with Cons.prems have nn: "0 \<le> bytes_Index s sep"
      by (auto simp: Let_def split: if_splits)
    from Cons.IH [OF nn] False nn show ?thesis by (simp add: Let_def)
  qed
qed

lemma bytes_Index_drop:
  "(\<forall>j<k. \<not> prefix sep (drop j s)) \<Longrightarrow>
   bytes_Index (drop k s) sep = (if bytes_Index s sep < 0 then -1 else bytes_Index s sep - int k)"
proof (induction s arbitrary: k)
  case Nil
  then show ?case by auto
next
  case (Cons x s)
  show ?case
  proof (cases k)
    case 0
    then show ?thesis using bytes_Index_lower [of "x # s" sep] by auto
  next
    case (Suc k')
    with Cons.prems have np: "\<not> prefix sep (x # s)" by (metis drop0 zero_less_Suc)
    have "\<forall>j<k'. \<not> prefix sep (drop j s)"
      using Cons.prems Suc by (metis Suc_less_eq drop_Suc_Cons)
    from Cons.IH [OF this] np Suc show ?thesis
      using bytes_Index_lower [of s sep] by (auto simp: Let_def)
  qed
qed


lemma buf_Append [simp]: "buf (Append c b) = buf b @ c"
  by (simp add: Append_def)

lemma returned_simps [simp]:
  "ret (returned i b) = i" "mem (returned i b) = b"
  "selects (returned i b) = 0" "scans (returned i b) = []"
  by (simp_all add: returned_def)

lemma selected_simps [simp]:
  "ret (selected r) = ret r" "mem (selected r) = mem r"
  "selects (selected r) = Suc (selects r)" "scans (selected r) = scans r"
  by (simp_all add: selected_def)

lemma scanned_simps [simp]:
  "ret (scanned p r) = ret r" "mem (scanned p r) = mem r"
  "selects (scanned p r) = selects r" "scans (scanned p r) = p # scans r"
  by (simp_all add: scanned_def)

lemma search_len_nowait:
  "maxWait \<le> 0 \<Longrightarrow>
   search_len minLen maxWait b evs =
     returned (if minLen \<le> int (length (buf b)) then 0 else -1) b"
  by (simp add: search_len.simps)

lemma search_pat_nowait:
  assumes "maxWait \<le> 0" "pattern \<noteq> []"
  shows "ret (search_pat pattern minLen maxWait 0 b evs) =
           (if int (length (buf b)) < minLen then -1
            else if bytes_Index (buf b) pattern < 0 then -1
            else bytes_Index (buf b) pattern + int (length pattern))"
    and "mem (search_pat pattern minLen maxWait 0 b evs) = b"
    and "selects (search_pat pattern minLen maxWait 0 b evs) = 0"
  using assms by (simp_all add: search_pat.simps Let_def)

text \<open>
  Claim C7. With \<open>maxWait <= 0\<close>, for every pattern and \<open>minLen\<close>, \<open>Search\<close> never
  blocks: it enters no select (it waits neither on the wake token nor on a timer),
  looks at the buffer as it is at call time only, and returns the offset when the
  length and match condition holds there and \<open>-1\<close> otherwise.
\<close>

theorem Search_no_wait:
  assumes "maxWait \<le> 0"
  shows "selects (Search pattern minLen maxWait b evs) = 0 \<and>
         mem (Search pattern minLen maxWait b evs) = b \<and>
         ret (Search pattern minLen maxWait b evs) =
           (if int (length (buf b)) < minLen then -1
            else if pattern = [] then 0
            else if bytes_Index (buf b) pattern < 0 then -1
            else bytes_Index (buf b) pattern + int (length pattern))"
proof (cases "pattern = []")
  case True
  with assms show ?thesis
    by (simp add: Search_def search_len_nowait)
next
  case False
  with assms show ?thesis
    by (simp add: Search_def search_pat_nowait)
qed


lemma search_len_ret: "ret (search_len N maxWait b evs) = 0 \<or> ret (search_len N maxWait b evs) = -1"
  by (induction N maxWait b evs rule: search_len.induct)
     (subst (1 2) search_len.simps, auto split: list.splits wakeup.splits)

lemma search_len_enough:
  "N \<le> int (length (buf b)) \<Longrightarrow> search_len N maxWait b evs = returned 0 b"
  by (simp add: search_len.simps)

lemma search_len_Woken:
  "\<not> N \<le> int (length (buf b)) \<Longrightarrow> 0 < maxWait \<Longrightarrow>
   search_len N maxWait b (Woken c # rest) = selected (search_len N maxWait (Append c b) rest)"
  by (simp add: search_len.simps)

lemma search_len_timeout:
  "\<not> N \<le> int (length (buf b)) \<Longrightarrow> woken evs = [] \<Longrightarrow>
   ret (search_len N maxWait b evs) = -1 \<and> mem (search_len N maxWait b evs) = b"
  by (cases evs rule: woken.cases) (simp_all add: search_len.simps)

lemma search_len_found:
  assumes "0 < maxWait" "k \<le> length (woken evs)"
    "N \<le> int (length (buf b @ concat (take k (woken evs))))"
  shows "ret (search_len N maxWait b evs) = 0 \<and>
         selects (search_len N maxWait b evs) \<le> k \<and>
         buf (mem (search_len N maxWait b evs)) =
           buf b @ concat (take (selects (search_len N maxWait b evs)) (woken evs)) \<and>
         N \<le> int (length (buf (mem (search_len N maxWait b evs)))) \<and>
         (\<forall>j < selects (search_len N maxWait b evs).
            int (length (buf b @ concat (take j (woken evs)))) < N)"
  using assms
proof (induction evs arbitrary: b k)
  case Nil
  then show ?case by (simp add: search_len_enough)
next
  case (Cons e evs)
  show ?case
  proof (cases "N \<le> int (length (buf b))")
    case True
    then show ?thesis by (simp add: search_len_enough)
  next
    case False
    with Cons.prems obtain k' where k: "k = Suc k'"
      by (cases k) auto
    with Cons.prems obtain c where e: "e = Woken c"
      by (cases e) auto
    let ?r = "search_len N maxWait (Append c b) evs"
    have run: "search_len N maxWait b (e # evs) = selected ?r"
      using False Cons.prems(1) e by (simp add: search_len_Woken)
    have "k' \<le> length (woken evs)" using Cons.prems(2) k e by simp
    moreover have "N \<le> int (length (buf (Append c b) @ concat (take k' (woken evs))))"
      using Cons.prems(3) k e by simp
    ultimately have IH: "ret ?r = 0 \<and> selects ?r \<le> k' \<and>
        buf (mem ?r) = buf (Append c b) @ concat (take (selects ?r) (woken evs)) \<and>
        N \<le> int (length (buf (mem ?r))) \<and>
        (\<forall>j < selects ?r. int (length (buf (Append c b) @ concat (take j (woken evs)))) < N)"
      using Cons.IH [OF Cons.prems(1)] by blast
    have early: "\<forall>j < Suc (selects ?r). int (length (buf b @ concat (take j (woken (e # evs))))) < N"
    proof (intro allI impI)
      fix j assume j: "j < Suc (selects ?r)"
      show "int (length (buf b @ concat (take j (woken (e # evs))))) < N"
      proof (cases j)
        case 0
        then show ?thesis using False by simp
      next
        case (Suc j')
        with j have "j' < selects ?r" by simp
        with IH have "int (length (buf (Append c b) @ concat (take j' (woken evs)))) < N"
          by blast
        then show ?thesis using Suc e by simp
      qed
    qed
    have "ret (selected ?r) = 0" using IH by simp
    moreover have "selects (selected ?r) \<le> k" using IH k by simp
    moreover have "buf (mem (selected ?r)) =
        buf b @ concat (take (selects (selected ?r)) (woken (e # evs)))"
      using IH e by simp
    moreover have "N \<le> int (length (buf (mem (selected ?r))))"
    proof -
      from IH have "N \<le> int (length (buf (mem ?r)))" by blast
      then show ?thesis by simp
    qed
    moreover have "\<forall>j < selects (selected ?r).
        int (length (buf b @ concat (take j (woken (e # evs))))) < N"
      using early by simp
    ultimately show ?thesis
      unfolding run by blast
  qed
qed

lemma search_len_missing:
  assumes "0 < maxWait"
    "\<forall>k\<le>length (woken evs). int (length (buf b @ concat (take k (woken evs)))) < N"
  shows "ret (search_len N maxWait b evs) = -1 \<and>
         buf (mem (search_len N maxWait b evs)) = buf b @ concat (woken evs)"
  using assms
proof (induction evs arbitrary: b)
  case Nil
  then show ?case by (simp add: search_len.simps)
next
  case (Cons e evs)
  from Cons.prems(2) have short: "\<not> N \<le> int (length (buf b))"
    by (metis append_Nil2 concat.simps(1) le0 linorder_not_le take_0)
  show ?case
  proof (cases e)
    case (Woken c)
    have "\<forall>k\<le>length (woken evs).
            int (length (buf (Append c b) @ concat (take k (woken evs)))) < N"
    proof (intro allI impI)
      fix k assume "k \<le> length (woken evs)"
      then have "Suc k \<le> length (woken (e # evs))" using Woken by simp
      with Cons.prems(2)
      have "int (length (buf b @ concat (take (Suc k) (woken (e # evs))))) < N" by blast
      then show "int (length (buf (Append c b) @ concat (take k (woken evs)))) < N"
        using Woken by simp
    qed
    from Cons.IH [OF Cons.prems(1) this] short Cons.prems(1) Woken show ?thesis
      by (simp add: search_len_Woken)
  next
    case DeadlinePassed
    with short show ?thesis using search_len_timeout [of N b "e # evs" maxWait] by simp
  next
    case TimerFired
    with short show ?thesis using search_len_timeout [of N b "e # evs" maxWait] by simp
  qed
qed


lemma search_pat_found:
  assumes "0 \<le> ls" "ls \<le> int (length (buf b))" "minLen \<le> int (length (buf b))"
    "0 \<le> bytes_Index (drop (nat ls) (buf b)) P"
  shows "search_pat P minLen maxWait ls b evs =
           scanned (ls, int (length (buf b)))
             (returned (ls + bytes_Index (drop (nat ls) (buf b)) P + int (length P)) b)"
  using assms by (subst search_pat.simps) (simp add: Let_def)

lemma search_pat_retry:
  assumes "0 \<le> ls" "ls \<le> int (length (buf b))" "minLen \<le> int (length (buf b))"
    "bytes_Index (drop (nat ls) (buf b)) P < 0" "0 < maxWait" "P \<noteq> []"
  shows "search_pat P minLen maxWait ls b (Woken c # rest) =
           scanned (ls, int (length (buf b)))
             (selected (search_pat P minLen maxWait
                (max 0 (int (length (buf b)) - (int (length P) - 1))) (Append c b) rest))"
proof -
  have o: "\<not> int (length P) - 1 < 0" using assms(6) by (cases P) auto
  have m: "(if int (length (buf b)) - (int (length P) - 1) < 0 then 0
            else int (length (buf b)) - (int (length P) - 1)) =
           max 0 (int (length (buf b)) - (int (length P) - 1))"
    by (simp add: max_def)
  show ?thesis
    using assms(1-5) o by (subst search_pat.simps) (simp add: Let_def m del: buf_Append)
qed

lemma search_pat_giveup:
  assumes "0 \<le> ls" "ls \<le> int (length (buf b))" "minLen \<le> int (length (buf b))"
    "bytes_Index (drop (nat ls) (buf b)) P < 0" "maxWait \<le> 0 \<or> woken evs = []"
  shows "ret (search_pat P minLen maxWait ls b evs) = -1 \<and>
         mem (search_pat P minLen maxWait ls b evs) = b \<and>
         scans (search_pat P minLen maxWait ls b evs) = [(ls, int (length (buf b)))]"
proof (cases "maxWait \<le> 0")
  case True
  with assms(1-4) show ?thesis by (subst (1 2 3) search_pat.simps) (simp add: Let_def)
next
  case False
  with assms(5) have "woken evs = []" by simp
  then show ?thesis using assms(1-4) False
    by (cases evs rule: woken.cases) (subst (1 2 3) search_pat.simps, simp add: Let_def)+
qed


lemma prefix_drop_append:
  "prefix P (drop j s) \<Longrightarrow> prefix P (drop j (s @ c))"
  by (metis drop_append prefix_order.trans prefixI)

lemma prefix_drop_within:
  assumes "prefix P (drop j (s @ c))" "j + length P \<le> length s"
  shows "prefix P (drop j s)"
proof -
  from assms(2) have j: "j \<le> length s" by simp
  then have "drop j (s @ c) = drop j s @ c" by simp
  with assms(1) have "prefix P (drop j s @ c)" by simp
  moreover have "length P \<le> length (drop j s)" using assms(2) by simp
  ultimately show ?thesis
    by (metis prefix_length_prefix prefixI)
qed

lemma bytes_Index_stable:
  assumes "0 \<le> bytes_Index s P"
  shows "bytes_Index (s @ c) P = bytes_Index s P"
proof -
  let ?i = "bytes_Index s P" and ?i' = "bytes_Index (s @ c) P"
  have "prefix P (drop (nat ?i) (s @ c))"
    using bytes_Index_occ [OF assms] by (rule prefix_drop_append)
  then have le: "0 \<le> ?i' \<and> ?i' \<le> int (nat ?i)" by (rule bytes_Index_least)
  then have occ': "prefix P (drop (nat ?i') (s @ c))" using bytes_Index_occ by blast
  have "nat ?i' + length P \<le> length s"
    using le bytes_Index_upper [OF assms] assms by linarith
  with occ' have "prefix P (drop (nat ?i') s)" by (rule prefix_drop_within)
  then have "?i \<le> int (nat ?i')" using bytes_Index_least by blast
  with le assms show ?thesis by simp
qed

lemma bytes_Index_stable_concat:
  "0 \<le> bytes_Index s P \<Longrightarrow> bytes_Index (s @ c @ d) P = bytes_Index s P"
  by (metis append_assoc bytes_Index_stable)

lemma cursor_ok_0: "cursor_ok P 0 s"
  by (simp add: cursor_ok_def)

lemma cursor_ok_le: "P \<noteq> [] \<Longrightarrow> cursor_ok P ls s \<Longrightarrow> ls \<le> int (length s)"
  by (cases P) (auto simp: cursor_ok_def max_def split: if_splits)

lemma cursor_ok_Index:
  assumes "cursor_ok P ls s"
  shows "bytes_Index (drop (nat ls) s) P =
           (if bytes_Index s P < 0 then -1 else bytes_Index s P - ls)"
  using assms bytes_Index_drop [of "nat ls" P s] by (simp add: cursor_ok_def)

lemma cursor_ok_next:
  assumes "P \<noteq> []" "bytes_Index s P < 0"
  shows "cursor_ok P (max 0 (int (length s) - (int (length P) - 1))) (s @ c)"
proof -
  let ?ls = "max 0 (int (length s) - (int (length P) - 1))"
  have "\<not> prefix P (drop j (s @ c))" if "j < nat ?ls" for j
  proof
    assume occ: "prefix P (drop j (s @ c))"
    from that have "j + length P \<le> length s" by (simp add: max_def split: if_splits)
    with occ have "prefix P (drop j s)" by (rule prefix_drop_within)
    with assms(2) show False using bytes_Index_none by blast
  qed
  then show ?thesis by (simp add: cursor_ok_def)
qed


lemma cursor_ok_before:
  assumes "cursor_ok P ls s" "0 \<le> bytes_Index s P"
  shows "ls \<le> bytes_Index s P"
proof (rule ccontr)
  assume "\<not> ls \<le> bytes_Index s P"
  with assms(2) have "nat (bytes_Index s P) < nat ls" by simp
  with assms(1) have "\<not> prefix P (drop (nat (bytes_Index s P)) s)"
    by (simp add: cursor_ok_def)
  with bytes_Index_occ [OF assms(2)] show False by simp
qed

lemma search_pat_here:
  assumes "P \<noteq> []" "minLen \<le> 0" "cursor_ok P ls (buf b)" "0 \<le> bytes_Index (buf b) P"
  shows "search_pat P minLen maxWait ls b evs =
           scanned (ls, int (length (buf b)))
             (returned (bytes_Index (buf b) P + int (length P)) b)"
proof -
  have bounds: "0 \<le> ls" "ls \<le> int (length (buf b))" "minLen \<le> int (length (buf b))"
    using assms cursor_ok_le by (auto simp: cursor_ok_def)
  have i: "bytes_Index (drop (nat ls) (buf b)) P = bytes_Index (buf b) P - ls"
    using assms(3,4) by (simp add: cursor_ok_Index)
  then have "0 \<le> bytes_Index (drop (nat ls) (buf b)) P"
    using cursor_ok_before [OF assms(3,4)] by simp
  from search_pat_found [OF bounds this] i show ?thesis by simp
qed

lemma search_pat_later:
  assumes "P \<noteq> []" "minLen \<le> 0" "cursor_ok P ls (buf b)" "bytes_Index (buf b) P < 0"
    "0 < maxWait"
  shows "search_pat P minLen maxWait ls b (Woken c # rest) =
           scanned (ls, int (length (buf b)))
             (selected (search_pat P minLen maxWait
                (max 0 (int (length (buf b)) - (int (length P) - 1))) (Append c b) rest))"
proof -
  have bounds: "0 \<le> ls" "ls \<le> int (length (buf b))" "minLen \<le> int (length (buf b))"
    using assms cursor_ok_le by (auto simp: cursor_ok_def)
  have "bytes_Index (drop (nat ls) (buf b)) P < 0"
    using assms(3,4) by (simp add: cursor_ok_Index)
  from search_pat_retry [OF bounds this assms(5,1)] show ?thesis .
qed

lemma search_pat_never:
  assumes "P \<noteq> []" "minLen \<le> 0" "cursor_ok P ls (buf b)" "bytes_Index (buf b) P < 0"
    "maxWait \<le> 0 \<or> woken evs = []"
  shows "ret (search_pat P minLen maxWait ls b evs) = -1 \<and>
         mem (search_pat P minLen maxWait ls b evs) = b \<and>
         scans (search_pat P minLen maxWait ls b evs) = [(ls, int (length (buf b)))]"
proof -
  have bounds: "0 \<le> ls" "ls \<le> int (length (buf b))" "minLen \<le> int (length (buf b))"
    using assms cursor_ok_le by (auto simp: cursor_ok_def)
  have "bytes_Index (drop (nat ls) (buf b)) P < 0"
    using assms(3,4) by (simp add: cursor_ok_Index)
  from search_pat_giveup [OF bounds this assms(5)] show ?thesis .
qed

lemma search_pat_complete:
  assumes "P \<noteq> []" "0 < maxWait" "minLen \<le> 0"
  shows "cursor_ok P ls (buf b) \<Longrightarrow> k \<le> length (woken evs) \<Longrightarrow>
         0 \<le> bytes_Index (buf b @ concat (take k (woken evs))) P \<Longrightarrow>
         ret (search_pat P minLen maxWait ls b evs) =
           bytes_Index (buf b @ concat (take k (woken evs))) P + int (length P)"
proof (induction evs arbitrary: ls b k)
  case Nil
  then have "0 \<le> bytes_Index (buf b) P" by simp
  from search_pat_here [OF assms(1,3) Nil.prems(1) this] show ?case by simp
next
  case (Cons e evs)
  show ?case
  proof (cases "0 \<le> bytes_Index (buf b) P")
    case True
    then have "bytes_Index (buf b @ concat (take k (woken (e # evs)))) P = bytes_Index (buf b) P"
      by (rule bytes_Index_stable)
    with search_pat_here [OF assms(1,3) Cons.prems(1) True] show ?thesis by simp
  next
    case False
    then have absent: "bytes_Index (buf b) P < 0" by simp
    with Cons.prems(3) obtain k' where k: "k = Suc k'"
      by (cases k) auto
    with Cons.prems(2) obtain c where e: "e = Woken c"
      by (cases e) auto
    let ?ls = "max 0 (int (length (buf b)) - (int (length P) - 1))"
    have ok: "cursor_ok P ?ls (buf (Append c b))"
      using cursor_ok_next [OF assms(1) absent] by simp
    have "k' \<le> length (woken evs)" using Cons.prems(2) k e by simp
    moreover have same: "buf (Append c b) @ concat (take k' (woken evs)) =
        buf b @ concat (take k (woken (e # evs)))"
      using k e by simp
    ultimately have "ret (search_pat P minLen maxWait ?ls (Append c b) evs) =
        bytes_Index (buf b @ concat (take k (woken (e # evs)))) P + int (length P)"
      using Cons.IH [OF ok, of k'] Cons.prems(3) by (simp only: same)
    then show ?thesis
      using search_pat_later [OF assms(1,3) Cons.prems(1) absent assms(2)] e by simp
  qed
qed

lemma search_pat_absent:
  assumes "P \<noteq> []" "0 < maxWait" "minLen \<le> 0"
  shows "cursor_ok P ls (buf b) \<Longrightarrow>
         \<forall>k\<le>length (woken evs). bytes_Index (buf b @ concat (take k (woken evs))) P < 0 \<Longrightarrow>
         ret (search_pat P minLen maxWait ls b evs) = -1 \<and>
         buf (mem (search_pat P minLen maxWait ls b evs)) = buf b @ concat (woken evs)"
proof (induction evs arbitrary: ls b)
  case Nil
  then have "bytes_Index (buf b) P < 0" by simp
  from search_pat_never [OF assms(1,3) Nil.prems(1) this] show ?case by simp
next
  case (Cons e evs)
  from Cons.prems(2) have absent: "bytes_Index (buf b) P < 0"
    by (metis append_Nil2 concat.simps(1) le0 take_0)
  show ?case
  proof (cases "woken (e # evs) = []")
    case True
    with search_pat_never [OF assms(1,3) Cons.prems(1) absent] show ?thesis by simp
  next
    case False
    then obtain c where e: "e = Woken c" by (cases e) auto
    let ?ls = "max 0 (int (length (buf b)) - (int (length P) - 1))"
    have ok: "cursor_ok P ?ls (buf (Append c b))"
      using cursor_ok_next [OF assms(1) absent] by simp
    have "\<forall>k\<le>length (woken evs).
            bytes_Index (buf (Append c b) @ concat (take k (woken evs))) P < 0"
    proof (intro allI impI)
      fix k assume "k \<le> length (woken evs)"
      then have "Suc k \<le> length (woken (e # evs))" using e by simp
      with Cons.prems(2)
      have "bytes_Index (buf b @ concat (take (Suc k) (woken (e # evs)))) P < 0" by blast
      then show "bytes_Index (buf (Append c b) @ concat (take k (woken evs))) P < 0"
        using e by simp
    qed
    from Cons.IH [OF ok this]
    show ?thesis
      using search_pat_later [OF assms(1,3) Cons.prems(1) absent assms(2)] e by simp
  qed
qed

lemma search_pat_scans:
  assumes "P \<noteq> []" "minLen \<le> 0"
  shows "cursor_ok P ls (buf b) \<Longrightarrow>
         scans (search_pat P minLen maxWait ls b evs) \<noteq> [] \<and>
         hd (scans (search_pat P minLen maxWait ls b evs)) = (ls, int (length (buf b))) \<and>
         successively (carry P) (scans (search_pat P minLen maxWait ls b evs))"
proof (induction evs arbitrary: ls b)
  case Nil
  show ?case
  proof (cases "0 \<le> bytes_Index (buf b) P")
    case True
    from search_pat_here [OF assms Nil True] show ?thesis by simp
  next
    case False
    then have "bytes_Index (buf b) P < 0" by simp
    from search_pat_never [OF assms Nil this] show ?thesis by simp
  qed
next
  case (Cons e evs)
  show ?case
  proof (cases "0 \<le> bytes_Index (buf b) P")
    case True
    from search_pat_here [OF assms Cons.prems True] show ?thesis by simp
  next
    case False
    then have absent: "bytes_Index (buf b) P < 0" by simp
    show ?thesis
    proof (cases "maxWait \<le> 0 \<or> woken (e # evs) = []")
      case True
      from search_pat_never [OF assms Cons.prems absent True] show ?thesis by simp
    next
      case False
      then obtain c where e: "e = Woken c" and w: "0 < maxWait" by (cases e) auto
      let ?ls = "max 0 (int (length (buf b)) - (int (length P) - 1))"
      let ?r = "search_pat P minLen maxWait ?ls (Append c b) evs"
      have ok: "cursor_ok P ?ls (buf (Append c b))"
        using cursor_ok_next [OF assms(1) absent] by simp
      from Cons.IH [OF ok] have IH: "scans ?r \<noteq> []"
        "hd (scans ?r) = (?ls, int (length (buf (Append c b))))"
        "successively (carry P) (scans ?r)" by blast+
      have "carry P (ls, int (length (buf b))) (hd (scans ?r))"
        using Cons.prems IH(2) by (auto simp: carry_def cursor_ok_def)
      with IH show ?thesis
        using search_pat_later [OF assms Cons.prems absent w] e
        by (simp add: successively_Cons)
    qed
  qed
qed


lemma grown_split:
  assumes "k < length (woken evs)" "grown b evs k = pre @ P1" "woken evs ! k = P2 @ post"
  shows "grown b evs (Suc k) = pre @ (P1 @ P2) @ post"
  using assms by (simp add: grown_def take_Suc_conv_app_nth)

text \<open>
  Claim C1, as amended. For a non-empty pattern \<open>P\<close>, \<open>minLen = 0\<close> and a positive wait:
  whenever the buffer holds \<open>P\<close> after some number of wake-ups, \<open>Search\<close> returns the
  offset just after the first occurrence of \<open>P\<close> in the buffer; in particular when
  \<open>P = P1 @ P2\<close> is split across two appends (the buffer ends with \<open>P1\<close> and the next
  chunk starts with \<open>P2\<close>) the result is that offset, positive and at most the end of
  the split occurrence; \<open>-1\<close> is returned only when no buffer the run sees holds \<open>P\<close>.
  The first pass starts at \<open>0\<close>; from one pass to the next the cursor never moves
  back, the buffer never shrinks, the next start is \<open>max 0 (len(buf) - (len(P) - 1))\<close>,
  so the bytes of the earlier buffer that are scanned again are its trailing
  \<open>min (len(buf)) (len(P) - 1)\<close> bytes.
\<close>

theorem Search_split_pattern:
  assumes "P \<noteq> []" "0 < maxWait"
  shows "(\<forall>k\<le>length (woken evs). 0 \<le> bytes_Index (grown b evs k) P \<longrightarrow>
            ret (Search P 0 maxWait b evs) = bytes_Index (grown b evs k) P + int (length P)) \<and>
         (\<forall>k<length (woken evs). \<forall>pre P1 P2 post.
            P = P1 @ P2 \<and> grown b evs k = pre @ P1 \<and> woken evs ! k = P2 @ post \<longrightarrow>
            ret (Search P 0 maxWait b evs) = bytes_Index (pre @ P @ post) P + int (length P) \<and>
            0 < ret (Search P 0 maxWait b evs) \<and>
            ret (Search P 0 maxWait b evs) \<le> int (length pre) + int (length P)) \<and>
         ((\<forall>k\<le>length (woken evs). bytes_Index (grown b evs k) P < 0) \<longrightarrow>
            ret (Search P 0 maxWait b evs) = -1) \<and>
         scans (Search P 0 maxWait b evs) \<noteq> [] \<and>
         fst (hd (scans (Search P 0 maxWait b evs))) = 0 \<and>
         successively (carry P) (scans (Search P 0 maxWait b evs))"
proof -
  let ?r = "Search P 0 maxWait b evs"
  have run: "?r = search_pat P 0 maxWait 0 b evs"
    using assms(1) by (simp add: Search_def)
  have ok: "cursor_ok P 0 (buf b)" by (rule cursor_ok_0)
  have found: "ret ?r = bytes_Index (grown b evs k) P + int (length P)"
    if "k \<le> length (woken evs)" "0 \<le> bytes_Index (grown b evs k) P" for k
    using search_pat_complete [OF assms(1,2) order_refl ok that(1)] that(2)
    unfolding run grown_def by simp
  have split: "ret ?r = bytes_Index (pre @ P @ post) P + int (length P) \<and>
      0 < ret ?r \<and> ret ?r \<le> int (length pre) + int (length P)"
    if k: "k < length (woken evs)" and P: "P = P1 @ P2"
      and g: "grown b evs k = pre @ P1" and c: "woken evs ! k = P2 @ post"
    for k pre P1 P2 post
  proof -
    have full: "grown b evs (Suc k) = pre @ P @ post"
      using grown_split [OF k g c] P by simp
    have "prefix P (drop (length pre) (pre @ P @ post))" by simp
    then have i: "0 \<le> bytes_Index (pre @ P @ post) P"
      "bytes_Index (pre @ P @ post) P \<le> int (length pre)"
      using bytes_Index_least by blast+
    have "ret ?r = bytes_Index (pre @ P @ post) P + int (length P)"
      using found [of "Suc k"] k i(1) full by simp
    moreover have "0 < int (length P)" using assms(1) by simp
    ultimately show ?thesis using i by linarith
  qed
  have absent: "ret ?r = -1"
    if "\<forall>k\<le>length (woken evs). bytes_Index (grown b evs k) P < 0"
    using search_pat_absent [OF assms(1,2) order_refl ok] that
    unfolding run grown_def by simp
  have trace: "scans ?r \<noteq> []" "fst (hd (scans ?r)) = 0" "successively (carry P) (scans ?r)"
    using search_pat_scans [OF assms(1) order_refl ok, of maxWait evs]
    unfolding run by simp_all
  from found split absent trace show ?thesis by blast
qed

theorem Search_split_pattern_witness:
  "ret (Search [97, 98, 99] 0 1 \<lparr>buf = [120, 97], wait = 0\<rparr> [Woken [98], Woken [99, 121]]) = 4 \<and>
   scans (Search [97, 98, 99] 0 1 \<lparr>buf = [120, 97], wait = 0\<rparr> [Woken [98], Woken [99, 121]])
     = [(0, 2), (0, 3), (1, 5)]"
  using Search_split_pattern [of "[97, 98, 99]" 1 "[Woken [98], Woken [99, 121]]"
      "\<lparr>buf = [120, 97], wait = 0\<rparr>"]
  by (simp add: Search_def search_pat.simps Let_def Append_def returned_def selected_def scanned_def)

text \<open>
  Claim C1 as stated fails when the buffer is shorter than \<open>len(P) - 1\<close>: with the
  pattern \<open>abc\<close> and a buffer holding \<open>a\<close>, the pass without a match leaves the cursor
  at \<open>0\<close>, and the next pass rescans one byte of the earlier buffer, not two.
\<close>

theorem Search_carry_counterexample:
  "scans (Search [97, 98, 99] 0 1 \<lparr>buf = [97], wait = 0\<rparr> [Woken [98]]) = [(0, 1), (0, 2)] \<and>
   \<not> successively (carry_exact [97, 98, 99])
       (scans (Search [97, 98, 99] 0 1 \<lparr>buf = [97], wait = 0\<rparr> [Woken [98]]))"
  by (simp add: Search_def search_pat.simps Let_def Append_def returned_def selected_def
      scanned_def carry_exact_def)


lemma search_len_clamp:
  "search_len (if N < 0 then 0 else N) maxWait b evs = search_len N maxWait b evs"
proof (induction evs arbitrary: b)
  case Nil
  show ?case by (subst (1 2) search_len.simps) auto
next
  case (Cons e evs)
  show ?case
    by (subst (1 2) search_len.simps) (cases e; simp add: Cons.IH)
qed

text \<open>
  Claim C6. For every \<open>minLen = N\<close> (negative values behave as \<open>0\<close>), \<open>Search\<close> with the
  empty pattern returns offset \<open>0\<close> as soon as the buffer holds at least \<open>N\<close> bytes:
  at call time, or after the first wake-up at which it does, having re-checked after
  every wake-up before. When the buffer never reaches \<open>N\<close> bytes before the wait ends
  (at once for \<open>maxWait <= 0\<close>), it returns \<open>-1\<close>, having consumed every wake-up.
\<close>

theorem Search_empty_pattern:
  "((\<exists>k\<le>(if 0 < maxWait then length (woken evs) else 0). N \<le> int (length (grown b evs k))) \<longrightarrow>
      ret (Search [] N maxWait b evs) = 0 \<and>
      buf (mem (Search [] N maxWait b evs)) = grown b evs (selects (Search [] N maxWait b evs)) \<and>
      N \<le> int (length (buf (mem (Search [] N maxWait b evs)))) \<and>
      (\<forall>j < selects (Search [] N maxWait b evs). int (length (grown b evs j)) < N)) \<and>
   (\<not> (\<exists>k\<le>(if 0 < maxWait then length (woken evs) else 0). N \<le> int (length (grown b evs k))) \<longrightarrow>
      ret (Search [] N maxWait b evs) = -1 \<and>
      buf (mem (Search [] N maxWait b evs)) =
        grown b evs (if 0 < maxWait then length (woken evs) else 0))"
  (is "(?enough \<longrightarrow> ?found) \<and> (\<not> ?enough \<longrightarrow> ?timeout)")
proof -
  let ?s = "search_len N maxWait b evs"
  have run: "Search [] N maxWait b evs = ?s"
    by (simp add: Search_def search_len_clamp)
  show ?thesis
  proof (cases "0 < maxWait")
    case True
    show ?thesis
    proof (cases "\<exists>k\<le>length (woken evs). N \<le> int (length (grown b evs k))")
      case ex: True
      then obtain k where "k \<le> length (woken evs)"
        "N \<le> int (length (buf b @ concat (take k (woken evs))))"
        by (auto simp: grown_def)
      from search_len_found [OF True this]
      have "ret ?s = 0 \<and> buf (mem ?s) = grown b evs (selects ?s) \<and>
          N \<le> int (length (buf (mem ?s))) \<and>
          (\<forall>j < selects ?s. int (length (grown b evs j)) < N)"
        unfolding grown_def by blast
      then have ?found unfolding run .
      moreover have ?enough using ex True by simp
      ultimately show ?thesis by blast
    next
      case False
      then have "\<forall>k\<le>length (woken evs).
          int (length (buf b @ concat (take k (woken evs)))) < N"
        by (auto simp: grown_def)
      from search_len_missing [OF True this]
      have "ret ?s = -1 \<and> buf (mem ?s) = grown b evs (length (woken evs))"
        unfolding grown_def by simp
      then have ?timeout unfolding run using True by simp
      moreover have "\<not> ?enough" using False True by simp
      ultimately show ?thesis by blast
    qed
  next
    case False
    then have nw: "maxWait \<le> 0" by simp
    have s: "?s = returned (if N \<le> int (length (buf b)) then 0 else -1) b"
      by (rule search_len_nowait [OF nw])
    have g: "grown b evs 0 = buf b" by (simp add: grown_def)
    show ?thesis
      unfolding run s using False by (simp add: g)
  qed
qed

theorem Search_empty_pattern_witness:
  "(2::int) \<le> int (length (grown \<lparr>buf = [7], wait = 0\<rparr> [Woken [8], Woken [9]] 1)) \<and>
   ret (Search [] 2 1 \<lparr>buf = [7], wait = 0\<rparr> [Woken [8], Woken [9]]) = 0 \<and>
   selects (Search [] 2 1 \<lparr>buf = [7], wait = 0\<rparr> [Woken [8], Woken [9]]) = 1 \<and>
   buf (mem (Search [] 2 1 \<lparr>buf = [7], wait = 0\<rparr> [Woken [8], Woken [9]])) = [7, 8]"
  using Search_empty_pattern [of 1 "[Woken [8], Woken [9]]" 2 "\<lparr>buf = [7], wait = 0\<rparr>"]
  by (simp add: Search_def search_len.simps Append_def returned_def selected_def grown_def)

theorem Search_no_wait_witness:
  "(0::int) \<le> 0 \<and>
   ret (Search [10] 0 0 \<lparr>buf = [1, 2], wait = 0\<rparr> [Woken [10]]) = -1 \<and>
   selects (Search [10] 0 0 \<lparr>buf = [1, 2], wait = 0\<rparr> [Woken [10]]) = 0 \<and>
   ret (Search [] 3 (-5) \<lparr>buf = [1, 2], wait = 0\<rparr> [Woken [10]]) = -1 \<and>
   ret (Search [2] 1 0 \<lparr>buf = [1, 2], wait = 0\<rparr> []) = 2"
  using Search_no_wait [of 0 "[10]" 0 "\<lparr>buf = [1, 2], wait = 0\<rparr>" "[Woken [10]]"]
  by (simp add: Search_def search_len.simps search_pat.simps Let_def returned_def scanned_def)

section \<open>Proofs: the transport\<close>

lemma search_len_holds:
  "ret (search_len N maxWait b evs) \<noteq> -1 \<Longrightarrow>
   ret (search_len N maxWait b evs) = 0 \<and>
   N \<le> int (length (buf (mem (search_len N maxWait b evs))))"
proof (induction evs arbitrary: b)
  case Nil
  then show ?case by (subst (asm) search_len.simps, subst (1 2) search_len.simps)
      (auto simp: returned_def selected_def split: if_splits)
next
  case (Cons e evs)
  show ?case
  proof (cases "N \<le> int (length (buf b)) \<or> maxWait \<le> 0")
    case True
    with Cons.prems show ?thesis
      by (subst (asm) search_len.simps, subst (1 2) search_len.simps)
         (auto simp: returned_def split: if_splits)
  next
    case False
    show ?thesis
    proof (cases e)
      case (Woken c)
      with False have run: "search_len N maxWait b (e # evs) =
          selected (search_len N maxWait (Append c b) evs)"
        by (simp add: search_len.simps)
      with Cons.prems have "ret (search_len N maxWait (Append c b) evs) \<noteq> -1"
        by (simp add: selected_def)
      from Cons.IH [OF this] show ?thesis
        unfolding run by (simp add: selected_def)
    next
      case DeadlinePassed
      with False Cons.prems show ?thesis
        by (simp add: search_len.simps returned_def)
    next
      case TimerFired
      with False Cons.prems show ?thesis
        by (simp add: search_len.simps returned_def selected_def)
    qed
  qed
qed

lemma Search_empty_holds:
  assumes "ret (Search [] N maxWait b evs) \<noteq> -1"
  shows "ret (Search [] N maxWait b evs) = 0 \<and>
         N \<le> int (length (buf (mem (Search [] N maxWait b evs))))"
proof -
  have "Search [] N maxWait b evs = search_len N maxWait b evs"
    by (simp add: Search_def search_len_clamp)
  with assms search_len_holds [of N maxWait b evs] show ?thesis by simp
qed

lemma search_pat_bound:
  "ret (search_pat P minLen maxWait ls b evs) = -1 \<or>
   (0 \<le> ret (search_pat P minLen maxWait ls b evs) \<and>
    ret (search_pat P minLen maxWait ls b evs)
      \<le> int (length (buf (mem (search_pat P minLen maxWait ls b evs)))))"
proof (induction evs arbitrary: ls b)
  case Nil
  show ?case
    using bytes_Index_upper [of "drop (nat (if (if ls < 0 then 0 else ls) > int (length (buf b)) then int (length (buf b)) else (if ls < 0 then 0 else ls))) (buf b)" P]
    by (subst (1 2 3 4) search_pat.simps) (auto simp: Let_def)
next
  case (Cons e evs)
  show ?case
    using bytes_Index_upper [of "drop (nat (if (if ls < 0 then 0 else ls) > int (length (buf b)) then int (length (buf b)) else (if ls < 0 then 0 else ls))) (buf b)" P]
      Cons.IH
    by (subst (1 2 3 4) search_pat.simps) (cases e; auto simp: Let_def)
qed

lemma Search_bound:
  "ret (Search P minLen maxWait b evs) = -1 \<or>
   (0 \<le> ret (Search P minLen maxWait b evs) \<and>
    ret (Search P minLen maxWait b evs) \<le> int (length (buf (mem (Search P minLen maxWait b evs)))))"
proof (cases "P = []")
  case True
  then have run: "Search P minLen maxWait b evs = search_len minLen maxWait b evs"
    by (simp add: Search_def search_len_clamp)
  show ?thesis
    using search_len_holds [of minLen maxWait b evs] unfolding run by auto
next
  case False
  then show ?thesis using search_pat_bound by (simp add: Search_def)
qed

lemma Get_0: "0 < length (buf b) \<Longrightarrow> Get 0 b = Inr ([], b)"
  by (simp add: Get_def)

lemma Get_all: "Get (-1) b = Inr (buf b, b\<lparr>buf := []\<rparr>)"
  by (simp add: Get_def)

text \<open>
  The offset that \<open>Search\<close> returns lies inside the buffer it saw, so the slices
  of \<open>Get\<close> in \<open>Receive\<close> are always in range; with the all-data flag a matched
  \<open>Receive\<close> decodes the whole buffer and leaves it empty.
\<close>

lemma Receive_no_panic:
  "\<exists>res. Receive ToBytes BytesToAny2 evs args g = Inr res"
proof -
  show ?thesis
    using Search_bound [of "projr (ToBytes (EOP args))" "Count args" "waitTime (WaitTime args)" "received g" evs]
    by (auto simp: Receive_def Let_def Get_def split: sum.split prod.split option.split)
qed

lemma Receive_all_data:
  assumes "AllData args" "ToBytes (EOP args) = Inr terminator"
    "ret (Search terminator (Count args) (waitTime (WaitTime args)) (received g) evs) \<noteq> -1"
    "BytesToAny2 (buf (mem (Search terminator (Count args) (waitTime (WaitTime args))
        (received g) evs))) = (reply, None)"
  shows "\<exists>args' g'. Receive ToBytes BytesToAny2 evs args g = Inr ((True, None), args', g') \<and>
           Reply args' = reply \<and> buf (received g') = []"
  using assms by (simp add: Receive_def Let_def Get_all)

text \<open>
  Claim C2. For a request with a count \<open>N > 0\<close>, no terminator and not all-data,
  the claim says that a matched \<open>Receive\<close> decodes the first \<open>N\<close> buffered bytes and
  removes them. The code does not: \<open>Search\<close> with the empty terminator answers offset
  \<open>0\<close> once \<open>N\<close> bytes are buffered, and \<open>Get 0\<close> takes no bytes. Whenever the search
  matches, the decoder is given the empty byte string and the buffer is left as the
  search saw it, still holding at least \<open>N\<close> bytes.
\<close>

theorem Receive_count_reads_nothing:
  assumes "EOP args = None" "0 < Count args" "\<not> AllData args" "ToBytes None = Inr []"
  shows "Receive ToBytes BytesToAny2 evs args g =
           (let found = Search [] (Count args)
                          (waitTime (WaitTime args))
                          (received g) evs
            in if ret found = -1 then Inr ((False, None), args, g\<lparr>received := mem found\<rparr>)
               else Inr ((snd (BytesToAny2 []) = None, snd (BytesToAny2 [])),
                         args\<lparr>Reply := fst (BytesToAny2 [])\<rparr>, g\<lparr>received := mem found\<rparr>)) \<and>
         (ret (Search [] (Count args)
                 (waitTime (WaitTime args))
                 (received g) evs) \<noteq> -1 \<longrightarrow>
            Count args \<le> int (length (buf (mem (Search [] (Count args)
                 (waitTime (WaitTime args))
                 (received g) evs)))))"
proof -
  let ?w = "waitTime (WaitTime args)"
  let ?found = "Search [] (Count args) ?w (received g) evs"
  show ?thesis
  proof (cases "ret ?found = -1")
    case True
    with assms show ?thesis by (simp add: Receive_def Let_def)
  next
    case False
    from Search_empty_holds [OF False]
    have r: "ret ?found = 0" and n: "Count args \<le> int (length (buf (mem ?found)))" by blast+
    with assms(2) have "0 < int (length (buf (mem ?found)))" by linarith
    then have "0 < length (buf (mem ?found))" by simp
    then have get: "Get 0 (mem ?found) = Inr ([], mem ?found)" by (rule Get_0)
    obtain reply err where dec: "BytesToAny2 [] = (reply, err)" by (cases "BytesToAny2 []")
    have "Receive ToBytes BytesToAny2 evs args g =
        Inr ((err = None, err), args\<lparr>Reply := reply\<rparr>, g\<lparr>received := mem ?found\<rparr>)"
      using assms r get dec by (cases err) (simp_all add: Receive_def Let_def)
    with False n dec show ?thesis by (simp add: Let_def)
  qed
qed


theorem Receive_count_reads_nothing_witness:
  "Receive ToBytes_bytes BytesToAny2_bytes []
     \<lparr>EOP = None, Count = 2, AllData = False, WaitTime = 100, Reply = None\<rparr>
     ((NewGXSerial ''/dev/ttyS0'' 9600 8 ParityNone 1)\<lparr>received := \<lparr>buf = [1, 2, 3], wait = 1\<rparr>\<rparr>)
   = Inr ((True, None),
          \<lparr>EOP = None, Count = 2, AllData = False, WaitTime = 100, Reply = Some []\<rparr>,
          (NewGXSerial ''/dev/ttyS0'' 9600 8 ParityNone 1)
            \<lparr>received := \<lparr>buf = [1, 2, 3], wait = 1\<rparr>\<rparr>)"
  using Receive_count_reads_nothing [of
      "\<lparr>EOP = None, Count = 2, AllData = False, WaitTime = 100, Reply = (None :: byte list option)\<rparr>"
      ToBytes_bytes BytesToAny2_bytes "[]"
      "(NewGXSerial ''/dev/ttyS0'' 9600 8 ParityNone 1)\<lparr>received := \<lparr>buf = [1, 2, 3], wait = 1\<rparr>\<rparr>"]
  by (simp add: ToBytes_bytes_def BytesToAny2_bytes_def Search_def search_len.simps
      returned_def NewGXSerial_def)

text \<open>
  Claim C8, as amended. For every request with a nil terminator, a count equal to
  zero and no all-data flag, \<open>Receive\<close> returns \<open>matched = false\<close> with the validation
  error, and the transport, its buffer included, is unchanged.
\<close>

theorem Receive_validation:
  assumes "EOP args = None" "Count args = 0" "\<not> AllData args"
  shows "Receive ToBytes BytesToAny2 evs args g =
           Inr ((False, Some (New ''msg.count_or_eop'')), args, g)"
  using assms by (simp add: Receive_def)

theorem Receive_validation_witness:
  "Receive ToBytes_bytes BytesToAny2_bytes [Woken [4]]
     \<lparr>EOP = None, Count = 0, AllData = False, WaitTime = 100, Reply = None\<rparr>
     ((NewGXSerial ''/dev/ttyS0'' 9600 8 ParityNone 1)\<lparr>received := \<lparr>buf = [1, 2, 3], wait = 1\<rparr>\<rparr>)
   = Inr ((False, Some (New ''msg.count_or_eop'')),
          \<lparr>EOP = None, Count = 0, AllData = False, WaitTime = 100, Reply = None\<rparr>,
          (NewGXSerial ''/dev/ttyS0'' 9600 8 ParityNone 1)
            \<lparr>received := \<lparr>buf = [1, 2, 3], wait = 1\<rparr>\<rparr>)"
  using Receive_validation [of
      "\<lparr>EOP = None, Count = 0, AllData = False, WaitTime = 100, Reply = (None :: byte list option)\<rparr>"
      ToBytes_bytes BytesToAny2_bytes "[Woken [4]]"
      "(NewGXSerial ''/dev/ttyS0'' 9600 8 ParityNone 1)\<lparr>received := \<lparr>buf = [1, 2, 3], wait = 1\<rparr>\<rparr>"]
  by simp

text \<open>
  Claim C8 as stated fails for a negative count: the request specifies no
  terminator, no positive count and not all-data, yet it passes the check
  \<open>Count == 0\<close> and \<open>Receive\<close> answers \<open>matched = true\<close> without an error.
\<close>

theorem Receive_negative_count_counterexample:
  "Receive ToBytes_bytes BytesToAny2_bytes []
     \<lparr>EOP = None, Count = -1, AllData = False, WaitTime = 0, Reply = None\<rparr>
     ((NewGXSerial ''/dev/ttyS0'' 9600 8 ParityNone 1)\<lparr>received := \<lparr>buf = [1, 2, 3], wait = 1\<rparr>\<rparr>)
   = Inr ((True, None),
          \<lparr>EOP = None, Count = -1, AllData = False, WaitTime = 0, Reply = Some []\<rparr>,
          (NewGXSerial ''/dev/ttyS0'' 9600 8 ParityNone 1)
            \<lparr>received := \<lparr>buf = [1, 2, 3], wait = 1\<rparr>\<rparr>)"
  by (simp add: Receive_def ToBytes_bytes_def BytesToAny2_bytes_def Search_def search_len.simps
      returned_def NewGXSerial_def Get_def waitTime_def)

text \<open>
  Claim C9. For every request that passes the validation, with a terminator that
  converts to bytes, whose search ends without a match, \<open>Receive\<close> returns
  \<open>matched = false\<close> and no error; the request is unchanged and the buffer is the one
  the search saw.
\<close>

theorem Receive_timeout:
  assumes "\<not> (EOP args = None \<and> Count args = 0 \<and> \<not> AllData args)"
    and "ToBytes (EOP args) = Inr terminator"
    and "ret (Search terminator (Count args) (waitTime (WaitTime args)) (received g) evs) = -1"
  shows "Receive ToBytes BytesToAny2 evs args g =
           Inr ((False, None), args,
                g\<lparr>received := mem (Search terminator (Count args) (waitTime (WaitTime args))
                                     (received g) evs)\<rparr>)"
  using assms by (auto simp: Receive_def Let_def)

theorem Receive_timeout_witness:
  "ret (Search [10] 0 (waitTime 50) \<lparr>buf = [1, 2], wait = 1\<rparr> [Woken [3], TimerFired]) = -1 \<and>
   Receive ToBytes_bytes BytesToAny2_bytes [Woken [3], TimerFired]
     \<lparr>EOP = Some [10], Count = 0, AllData = False, WaitTime = 50, Reply = None\<rparr>
     ((NewGXSerial ''/dev/ttyS0'' 9600 8 ParityNone 1)\<lparr>received := \<lparr>buf = [1, 2], wait = 1\<rparr>\<rparr>)
   = Inr ((False, None),
          \<lparr>EOP = Some [10], Count = 0, AllData = False, WaitTime = 50, Reply = None\<rparr>,
          (NewGXSerial ''/dev/ttyS0'' 9600 8 ParityNone 1)
            \<lparr>received := \<lparr>buf = [1, 2, 3], wait = 2\<rparr>\<rparr>)"
  using Receive_timeout [of
      "\<lparr>EOP = Some [10], Count = 0, AllData = False, WaitTime = 50, Reply = (None :: byte list option)\<rparr>"
      ToBytes_bytes "[10]"
      "(NewGXSerial ''/dev/ttyS0'' 9600 8 ParityNone 1)\<lparr>received := \<lparr>buf = [1, 2], wait = 1\<rparr>\<rparr>"
      "[Woken [3], TimerFired]" BytesToAny2_bytes]
  by (simp add: ToBytes_bytes_def Search_def search_pat.simps Let_def Append_def
      returned_def selected_def scanned_def NewGXSerial_def waitTime_def Millisecond_def)


lemma emitted_emit [simp]: "emitted (emit e g) = emitted g @ [e]"
  by (simp add: emit_def)

lemma trace_emitted:
  "emitted (trace lock traceType msg g) =
     (case onTrace g of
        Some cb \<Rightarrow> if traceType \<le> traceLevel g then emitted g @ [TraceEvent cb traceType msg]
                   else emitted g
      | None \<Rightarrow> emitted g)"
  by (simp add: trace_def Let_def split: option.split)

lemma trace_fields [simp]:
  "onState (trace lock traceType msg g) = onState g"
  "onTrace (trace lock traceType msg g) = onTrace g"
  "traceLevel (trace lock traceType msg g) = traceLevel g"
  "stop_closed (trace lock traceType msg g) = stop_closed g"
  "s_port (trace lock traceType msg g) = s_port g"
  "Port (trace lock traceType msg g) = Port g"
  by (simp_all add: trace_def emit_def Let_def split: option.split)

lemma statef_fields [simp]:
  "onState (statef lock st g) = onState g"
  "onTrace (statef lock st g) = onTrace g"
  "traceLevel (statef lock st g) = traceLevel g"
  "stop_closed (statef lock st g) = stop_closed g"
  "s_port (statef lock st g) = s_port g"
  "Port (statef lock st g) = Port g"
  by (simp_all add: statef_def emit_def split: option.split)

lemma statef_emitted:
  "emitted (statef lock st g) =
     (case onState g of Some cb \<Rightarrow> emitted g @ [StateEvent cb st] | None \<Rightarrow> emitted g)"
  by (simp add: statef_def split: option.split)

lemma closed_fields [simp]:
  "onState (closed sys g) = onState g"
  "onTrace (closed sys g) = onTrace g"
  "traceLevel (closed sys g) = traceLevel g"
  "stop_closed (closed sys g) = stop_closed g"
  "emitted (closed sys g) = emitted g"
  "Port (closed sys g) = Port g"
  "\<not> isOpen (s_port (closed sys g))"
  by (simp_all add: closed_def close_def isOpen_def)

lemma prefix_trace: "prefix (emitted g) (emitted (trace lock traceType msg g))"
  by (simp add: trace_emitted split: option.split)

lemma Close_fields:
  assumes "\<not> stop_closed g"
  shows "onState (snd (Close K sys g)) = onState g"
    and "stop_closed (snd (Close K sys g)) = stop_closed g"
    and "\<not> isOpen (s_port (snd (Close K sys g)))"
    and "fst (Close K sys g) = None"
  using assms by (simp_all add: Close_def Let_def)

lemma Close_emits_state:
  assumes "\<not> stop_closed g" "onState g = Some cb"
  shows "emitted (snd (Close K sys g)) =
           emitted (trace False (TraceTypesInfo K) (Sprintf ''msg.connection_closed'' [Str (Port g)])
              (closed sys (if isOpen (s_port g)
                 then statef False MediaStateClosing
                        (trace False (TraceTypesInfo K)
                           (Sprintf ''msg.closing_connection'' [Str (Port g)]) g)
                 else g)))
           @ [StateEvent cb MediaStateClosed]"
  using assms by (simp add: Close_def Let_def statef_emitted)

text \<open>
  Claim C3. The claim says that a second \<open>Close\<close> is a no-op that emits no further
  state or trace event. In the code the channel \<open>stop\<close> is never closed, so the branch
  marked as already closed is never taken: on a transport with a state handler, the
  second \<open>Close\<close> returns no error and finds the port closed, but emits again, and the
  last event it emits is the state event \<open>MediaStateClosed\<close>.
\<close>

theorem Close_twice_emits_again:
  assumes "\<not> stop_closed g" "onState g = Some cb"
  shows "\<not> IsOpen (snd (Close K sys g)) \<and>
         fst (Close K sys' (snd (Close K sys g))) = None \<and>
         prefix (emitted (snd (Close K sys g)))
                (emitted (snd (Close K sys' (snd (Close K sys g))))) \<and>
         length (emitted (snd (Close K sys g)))
           < length (emitted (snd (Close K sys' (snd (Close K sys g))))) \<and>
         last (emitted (snd (Close K sys' (snd (Close K sys g))))) = StateEvent cb MediaStateClosed"
proof -
  let ?g1 = "snd (Close K sys g)"
  have s1: "\<not> stop_closed ?g1" and o1: "onState ?g1 = Some cb"
    and c1: "\<not> isOpen (s_port ?g1)"
    using Close_fields [OF assms(1), of K sys] assms by simp_all
  let ?t = "trace False (TraceTypesInfo K) (Sprintf ''msg.connection_closed'' [Str (Port ?g1)])
              (closed sys' ?g1)"
  have e2: "emitted (snd (Close K sys' ?g1)) = emitted ?t @ [StateEvent cb MediaStateClosed]"
    using Close_emits_state [OF s1 o1, of K sys'] c1 by simp
  have "prefix (emitted (closed sys' ?g1)) (emitted ?t)" by (rule prefix_trace)
  then have p: "prefix (emitted ?g1) (emitted ?t)" by simp
  then have "length (emitted ?g1) \<le> length (emitted ?t)" by (rule prefix_length_le)
  with p e2 c1 Close_fields(4) [OF s1, of K sys'] show ?thesis
    by (simp add: IsOpen_def prefix_order.trans)
qed

theorem Close_twice_emits_again_witness:
  "emitted (snd (Close sample_gxcommon quiet_os
      (snd (Open sample_gxcommon linux_unix quiet_os
         (SetOnMediaStateChange (Some 1) (NewGXSerial ''/dev/ttyS0'' 9600 8 ParityNone 1))))))
     = [StateEvent 1 MediaStateOpening, StateEvent 1 MediaStateOpen,
        StateEvent 1 MediaStateClosing, StateEvent 1 MediaStateClosed] \<and>
   emitted (snd (Close sample_gxcommon quiet_os (snd (Close sample_gxcommon quiet_os
      (snd (Open sample_gxcommon linux_unix quiet_os
         (SetOnMediaStateChange (Some 1) (NewGXSerial ''/dev/ttyS0'' 9600 8 ParityNone 1))))))))
     = [StateEvent 1 MediaStateOpening, StateEvent 1 MediaStateOpen,
        StateEvent 1 MediaStateClosing, StateEvent 1 MediaStateClosed,
        StateEvent 1 MediaStateClosed]"
  using Close_twice_emits_again [of
      "snd (Open sample_gxcommon linux_unix quiet_os
         (SetOnMediaStateChange (Some 1) (NewGXSerial ''/dev/ttyS0'' 9600 8 ParityNone 1)))"
      1 sample_gxcommon quiet_os quiet_os]
  by (simp add: Close_def Open_def openPort_def configure_def closed_def close_def isOpen_def
      statef_def trace_def emit_def SetOnMediaStateChange_def NewGXSerial_def Let_def
      sample_gxcommon_def linux_unix_def quiet_os_def toUnitBaudrate_def)


lemma setDataBits_invalid:
  assumes "val \<noteq> 5" "val \<noteq> 6" "val \<noteq> 7" "val \<noteq> 8"
  shows "fst (setDataBits U sys val p) \<noteq> None"
  using assms by (simp add: setDataBits_def Let_def split: sum.split)

lemma setDataBits_valid:
  assumes "val = 5 \<or> val = 6 \<or> val = 7 \<or> val = 8" "f_file p"
    "IoctlGetTermios_err sys = None" "IoctlSetTermios_err sys = None"
  shows "fst (setDataBits U sys val p) = None"
  using assms
  by (auto simp: setDataBits_def getTermios_def setTermios_def ensureOpen_def Let_def)

lemma configure_invalid:
  assumes "dataBits cfg \<noteq> 5" "dataBits cfg \<noteq> 6" "dataBits cfg \<noteq> 7" "dataBits cfg \<noteq> 8"
  shows "configure U cfg t = Inl (New ''invalid databits (must be 5..8)'')"
  using assms by (simp add: configure_def Let_def)

lemma openPort_invalid:
  assumes "dataBits cfg \<noteq> 5" "dataBits cfg \<noteq> 6" "dataBits cfg \<noteq> 7" "dataBits cfg \<noteq> 8"
  shows "fst (openPort U sys cfg) \<noteq> None"
proof -
  have "configure U (cfg\<lparr>s_port := q\<rparr>) t = Inl (New ''invalid databits (must be 5..8)'')" for q t
    using assms by (simp add: configure_invalid)
  then show ?thesis
    by (simp add: openPort_def Let_def split: option.split)
qed

lemma fst_SetDataBits:
  "fst (SetDataBits U sys val g) =
     (if isOpen (s_port g) then fst (setDataBits U sys val (s_port g)) else None)"
  by (simp add: SetDataBits_def Let_def case_prod_beta)

text \<open>
  Claim C4, as amended. While the port is open, \<open>SetDataBits\<close> returns an error for
  every value outside 5..8, and, when the two ioctl calls succeed, no error for a
  value inside; \<open>openPort\<close> returns an error for a configuration whose data bits are
  outside 5..8. While the port is closed, each of the four setters stores the value
  and returns no error, whatever the value.
\<close>

theorem setters_validate_when_open:
  "(IsOpen g \<and> val \<notin> {5, 6, 7, 8} \<longrightarrow> fst (SetDataBits U sys val g) \<noteq> None) \<and>
   (IsOpen g \<and> IoctlGetTermios_err sys = None \<and> IoctlSetTermios_err sys = None \<and>
      val \<in> {5, 6, 7, 8} \<longrightarrow> fst (SetDataBits U sys val g) = None) \<and>
   (dataBits g \<notin> {5, 6, 7, 8} \<longrightarrow> fst (openPort U sys g) \<noteq> None) \<and>
   (\<not> IsOpen g \<longrightarrow>
      SetDataBits U sys val g = (None, g\<lparr>dataBits := val\<rparr>) \<and>
      SetBaudRate U sys baud g = (None, g\<lparr>baudRate := baud\<rparr>) \<and>
      SetParity U sys par g = (None, g\<lparr>parity := par\<rparr>) \<and>
      SetStopBits K U sys stop g = (None, g\<lparr>stopBits := stop\<rparr>))"
proof (intro conjI impI)
  assume "IsOpen g \<and> val \<notin> {5, 6, 7, 8}"
  then have o: "isOpen (s_port g)" and v: "val \<noteq> 5" "val \<noteq> 6" "val \<noteq> 7" "val \<noteq> 8"
    by (simp_all add: IsOpen_def)
  from setDataBits_invalid [OF v, of U sys "s_port g"] o
  show "fst (SetDataBits U sys val g) \<noteq> None"
    by (simp add: fst_SetDataBits)
next
  assume a: "IsOpen g \<and> IoctlGetTermios_err sys = None \<and> IoctlSetTermios_err sys = None \<and>
      val \<in> {5, 6, 7, 8}"
  then have o: "isOpen (s_port g)" by (simp add: IsOpen_def)
  from a have "fst (setDataBits U sys val (s_port g)) = None"
    by (intro setDataBits_valid) (auto simp: IsOpen_def isOpen_def)
  with o show "fst (SetDataBits U sys val g) = None"
    by (simp add: fst_SetDataBits)
next
  assume "dataBits g \<notin> {5, 6, 7, 8}"
  then show "fst (openPort U sys g) \<noteq> None"
    by (intro openPort_invalid) simp_all
next
  assume "\<not> IsOpen g"
  then show "SetDataBits U sys val g = (None, g\<lparr>dataBits := val\<rparr>)"
    by (simp add: SetDataBits_def IsOpen_def)
next
  assume "\<not> IsOpen g"
  then show "SetBaudRate U sys baud g = (None, g\<lparr>baudRate := baud\<rparr>)"
    by (simp add: SetBaudRate_def IsOpen_def)
next
  assume "\<not> IsOpen g"
  then show "SetParity U sys par g = (None, g\<lparr>parity := par\<rparr>)"
    by (simp add: SetParity_def IsOpen_def)
next
  assume "\<not> IsOpen g"
  then show "SetStopBits K U sys stop g = (None, g\<lparr>stopBits := stop\<rparr>)"
    by (simp add: SetStopBits_def IsOpen_def)
qed

theorem setters_validate_when_open_witness:
  "IsOpen (snd (Open sample_gxcommon linux_unix quiet_os
             (NewGXSerial ''/dev/ttyS0'' 9600 8 ParityNone 1))) \<and>
   fst (SetDataBits linux_unix quiet_os 9
          (snd (Open sample_gxcommon linux_unix quiet_os
             (NewGXSerial ''/dev/ttyS0'' 9600 8 ParityNone 1))))
     = Some (Errorf ''setDataBits failed. invalid databits: %d'' 9) \<and>
   fst (SetDataBits linux_unix quiet_os 7
          (snd (Open sample_gxcommon linux_unix quiet_os
             (NewGXSerial ''/dev/ttyS0'' 9600 8 ParityNone 1)))) = None \<and>
   fst (openPort linux_unix quiet_os (NewGXSerial ''/dev/ttyS0'' 9600 9 ParityNone 1))
     = Some (New ''invalid databits (must be 5..8)'') \<and>
   \<not> IsOpen (NewGXSerial ''/dev/ttyS0'' 9600 8 ParityNone 1) \<and>
   fst (SetParity linux_unix quiet_os ParityMark
          (NewGXSerial ''/dev/ttyS0'' 9600 8 ParityNone 1)) = None"
  using setters_validate_when_open [of
      "snd (Open sample_gxcommon linux_unix quiet_os
             (NewGXSerial ''/dev/ttyS0'' 9600 8 ParityNone 1))"
      9 linux_unix quiet_os]
  by (simp add: SetDataBits_def SetParity_def setDataBits_def getTermios_def setTermios_def
      ensureOpen_def IsOpen_def Open_def openPort_def configure_def closed_def close_def
      isOpen_def statef_def trace_def emit_def NewGXSerial_def Let_def
      sample_gxcommon_def linux_unix_def quiet_os_def toUnitBaudrate_def)

text \<open>
  Claim C4 as stated fails on a closed port: \<open>SetDataBits\<close> with 9 data bits stores
  the value and returns no error.
\<close>

theorem SetDataBits_closed_counterexample:
  "\<not> IsOpen (NewGXSerial ''/dev/ttyS0'' 9600 8 ParityNone 1) \<and>
   SetDataBits linux_unix quiet_os 9 (NewGXSerial ''/dev/ttyS0'' 9600 8 ParityNone 1)
     = (None, NewGXSerial ''/dev/ttyS0'' 9600 9 ParityNone 1)"
  by (simp add: SetDataBits_def IsOpen_def isOpen_def NewGXSerial_def)

text \<open>
  Claim C5. The claim says that a trace event is dispatched to the registered
  handler exactly when its category is at or above the configured level in the
  severity ordering. The code does not: \<open>tracef\<close> and \<open>trace\<close> compare the integer of
  the level, a value of the enumeration \<open>TraceLevel\<close> (0 to 4), with the integer of
  the category, a flag of the enumeration \<open>TraceTypes\<close> (1, 2, 4, 8, 16). With these
  values an event of category Info is dispatched at no declared level, not even at
  Verbose with a handler registered, and an event of category Error is dispatched at
  no level below Verbose.
\<close>

lemma trace_dispatch:
  "((\<exists>cb. onTrace g = Some cb \<and> traceType \<le> traceLevel g \<and>
        tracef lock traceType fmtStr a g = emit (TraceEvent cb traceType (Sprintf fmtStr a)) g) \<or>
    ((onTrace g = None \<or> traceLevel g < traceType) \<and> tracef lock traceType fmtStr a g = g)) \<and>
   ((\<exists>cb. onTrace g = Some cb \<and> traceType \<le> traceLevel g \<and>
        trace lock traceType msg g = emit (TraceEvent cb traceType msg) g) \<or>
    ((onTrace g = None \<or> traceLevel g < traceType) \<and> trace lock traceType msg g = g))"
  by (cases "onTrace g") (auto simp: tracef_def trace_def Let_def)

theorem trace_Info_never_dispatched:
  assumes "traceLevel g \<le> TraceLevelVerbose"
  shows "trace lock (TraceTypesInfo sample_gxcommon) msg g = g \<and>
         tracef lock (TraceTypesInfo sample_gxcommon) fmtStr a g = g \<and>
         (traceLevel g < TraceLevelVerbose \<longrightarrow>
            trace lock (TraceTypesError sample_gxcommon) msg g = g \<and>
            tracef lock (TraceTypesError sample_gxcommon) fmtStr a g = g)"
proof -
  have info: "traceLevel g < TraceTypesInfo sample_gxcommon"
    using assms by (simp add: TraceLevelVerbose_def sample_gxcommon_def)
  have err: "traceLevel g < TraceTypesError sample_gxcommon" if "traceLevel g < TraceLevelVerbose"
    using that by (simp add: TraceLevelVerbose_def sample_gxcommon_def)
  have "trace lock (TraceTypesInfo sample_gxcommon) msg g = g"
    using info trace_dispatch [of g "TraceTypesInfo sample_gxcommon" lock fmtStr a msg] by auto
  moreover have "tracef lock (TraceTypesInfo sample_gxcommon) fmtStr a g = g"
    using info trace_dispatch [of g "TraceTypesInfo sample_gxcommon" lock fmtStr a msg] by auto
  moreover have "trace lock (TraceTypesError sample_gxcommon) msg g = g"
    if "traceLevel g < TraceLevelVerbose"
    using err [OF that] trace_dispatch [of g "TraceTypesError sample_gxcommon" lock fmtStr a msg]
    by auto
  moreover have "tracef lock (TraceTypesError sample_gxcommon) fmtStr a g = g"
    if "traceLevel g < TraceLevelVerbose"
    using err [OF that] trace_dispatch [of g "TraceTypesError sample_gxcommon" lock fmtStr a msg]
    by auto
  ultimately show ?thesis by blast
qed

theorem trace_Info_never_dispatched_witness:
  "onTrace (SetOnTrace (Some 7)
      (snd (SetTrace TraceLevelVerbose (NewGXSerial ''/dev/ttyS0'' 9600 8 ParityNone 1)))) = Some 7 \<and>
   traceLevel (SetOnTrace (Some 7)
      (snd (SetTrace TraceLevelVerbose (NewGXSerial ''/dev/ttyS0'' 9600 8 ParityNone 1))))
     \<le> TraceLevelVerbose \<and>
   emitted (trace False (TraceTypesInfo sample_gxcommon) (Sprintf ''msg.connecting_to'' [])
      (SetOnTrace (Some 7)
         (snd (SetTrace TraceLevelVerbose (NewGXSerial ''/dev/ttyS0'' 9600 8 ParityNone 1))))) = [] \<and>
   emitted (trace False (TraceTypesError sample_gxcommon) (Sprintf ''msg.connect_failed'' [])
      (SetOnTrace (Some 7)
         (snd (SetTrace TraceLevelError (NewGXSerial ''/dev/ttyS0'' 9600 8 ParityNone 1))))) = [] \<and>
   emitted (tracef True (TraceTypesSent sample_gxcommon) ''TX: %s'' [Str ''x'']
      (SetOnTrace (Some 7)
         (snd (SetTrace TraceLevelError (NewGXSerial ''/dev/ttyS0'' 9600 8 ParityNone 1)))))
     = [TraceEvent 7 1 (Sprintf ''TX: %s'' [Str ''x''])]"
  using trace_Info_never_dispatched [of
      "SetOnTrace (Some 7)
         (snd (SetTrace TraceLevelVerbose (NewGXSerial ''/dev/ttyS0'' 9600 8 ParityNone 1)))"
      False "Sprintf ''msg.connecting_to'' []" "''TX: %s''" "[Str ''x'']"]
    trace_Info_never_dispatched [of
      "SetOnTrace (Some 7)
         (snd (SetTrace TraceLevelError (NewGXSerial ''/dev/ttyS0'' 9600 8 ParityNone 1)))"
      False "Sprintf ''msg.connect_failed'' []" "''TX: %s''" "[Str ''x'']"]
  by (simp add: trace_def tracef_def emit_def SetOnTrace_def SetTrace_def NewGXSerial_def Let_def
      TraceLevelVerbose_def TraceLevelError_def sample_gxcommon_def)

lemma tracef_bytesSent [simp]: "bytesSent (tracef lock traceType fmtStr a g) = bytesSent g"
  by (simp add: tracef_def emit_def Let_def split: option.split)

lemma tracef_s_port [simp]: "s_port (tracef lock traceType fmtStr a g) = s_port g"
  by (simp add: tracef_def emit_def Let_def split: option.split)

text \<open>
  Claim C10. Whenever the data converts to bytes, \<open>Send\<close> adds their number to the
  sent-byte counter (a 64-bit unsigned addition) before the conversion to a string
  and before the write, and the counter keeps that value when \<open>Send\<close> returns the
  error of the string conversion or the error of the write.
\<close>

theorem Send_counts_before_write:
  assumes "ToBytes data = Inr tmp"
  shows "GetBytesSent (snd (Send K sys ToBytes ToString data receiver g)) =
           GetBytesSent g + of_nat (length tmp) \<and>
         (\<forall>err. ToString data = Inl err \<longrightarrow>
            fst (Send K sys ToBytes ToString data receiver g) = Some err) \<and>
         (\<forall>str. ToString data = Inr str \<longrightarrow>
            fst (Send K sys ToBytes ToString data receiver g) =
              snd (port_write sys tmp (s_port g)))"
  using assms by (cases "ToString data") (simp_all add: Send_def GetBytesSent_def Let_def)

theorem Send_counts_before_write_witness:
  "Send sample_gxcommon quiet_os Inr (\<lambda>d. Inl (Foreign 1)) [1, 2, 3] ''COM1''
     (NewGXSerial ''/dev/ttyS0'' 9600 8 ParityNone 1)
     = (Some (Foreign 1), (NewGXSerial ''/dev/ttyS0'' 9600 8 ParityNone 1)\<lparr>bytesSent := 3\<rparr>) \<and>
   Send sample_gxcommon quiet_os Inr (\<lambda>d. Inr ''010203'') [1, 2, 3] ''COM1''
     (NewGXSerial ''/dev/ttyS0'' 9600 8 ParityNone 1)
     = (Some (New ''serial port not open''),
        (NewGXSerial ''/dev/ttyS0'' 9600 8 ParityNone 1)\<lparr>bytesSent := 3\<rparr>)"
  using Send_counts_before_write [of Inr "[1, 2, 3]" "[1, 2, 3]" sample_gxcommon quiet_os
      "\<lambda>d. Inl (Foreign 1)" "''COM1''" "NewGXSerial ''/dev/ttyS0'' 9600 8 ParityNone 1"]
  by (simp add: Send_def port_write_def ensureOpen_def tracef_def NewGXSerial_def Let_def)

end
